theory Spec2Isabelle
  imports Main "HOL-Library.Word"
begin

section \<open>Values of the host language\<close>

text \<open>
  A JavaScript string is a sequence of UTF-16 code units; \<open>.length\<close> counts them.
  \<open>js\<close> embeds an ASCII literal of the source.
\<close>

type_synonym jsstring = "16 word list"

definition js :: "string \<Rightarrow> jsstring" where
  "js = map of_char"

text \<open>
  \<open>String.prototype.trim\<close> removes white space and line terminators (ECMAScript
  WhiteSpace and LineTerminator, all in the basic plane) from both ends.
\<close>

definition isWhiteSpace :: "16 word \<Rightarrow> bool" where
  "isWhiteSpace c \<longleftrightarrow>
     c \<in> {0x9, 0xA, 0xB, 0xC, 0xD, 0x20, 0xA0, 0x1680, 0x2028, 0x2029,
          0x202F, 0x205F, 0x3000, 0xFEFF}
     \<or> (0x2000 \<le> c \<and> c \<le> 0x200A)"

definition trim :: "jsstring \<Rightarrow> jsstring" where
  "trim s = rev (dropWhile isWhiteSpace (rev (dropWhile isWhiteSpace s)))"

text \<open>
  A field of a response body that holds text when it is present: it may be missing
  (\<open>undefined\<close>) or \<open>null\<close>. \<open>toString\<close> is the conversion a template literal
  applies.
\<close>

datatype jstext = JUndefined | JNull | JStr jsstring

fun toString :: "jstext \<Rightarrow> jsstring" where
  "toString JUndefined = js ''undefined''"
| "toString JNull = js ''null''"
| "toString (JStr t) = t"

text \<open>
  The length of a string in characters, as opposed to code units: a high surrogate
  followed by a low surrogate is one character.
\<close>

definition is_high_surrogate :: "16 word \<Rightarrow> bool" where
  "is_high_surrogate c \<longleftrightarrow> 0xD800 \<le> c \<and> c \<le> 0xDBFF"

definition is_low_surrogate :: "16 word \<Rightarrow> bool" where
  "is_low_surrogate c \<longleftrightarrow> 0xDC00 \<le> c \<and> c \<le> 0xDFFF"

fun characters :: "jsstring \<Rightarrow> nat" where
  "characters [] = 0"
| "characters [a] = 1"
| "characters (a # b # cs) =
     (if is_high_surrogate a \<and> is_low_surrogate b then Suc (characters cs)
      else Suc (characters (b # cs)))"

section \<open>The state of the Chat component\<close>

text \<open>
  The type variable \<open>'v\<close> stands for the JSON values that the component stores and never
  inspects: the \<open>duration\<close> of a reply and the entries of the file list.
  A missing property is \<open>None\<close>; the \<open>error\<close> flag is \<open>False\<close> when the property is
  absent.
\<close>

datatype role = User | Assistant

record 'v message =
  id_msg :: int
  role :: role
  content :: jstext
  timestamp :: jsstring
  duration :: "'v option"
  error :: bool

text \<open>One reading of the clock: \<open>Date.now()\<close> and \<open>new Date().toISOString()\<close>.\<close>

record clock =
  now :: int
  iso :: jsstring

datatype jsfile = File jsstring

datatype SpeechRecognition = RecognitionInstance

datatype SpeechSynthesis = WindowSpeechSynthesis

record 'v state =
  messages :: "'v message list"
  inputMessage :: jsstring
  isLoading :: bool
  isTyping :: bool
  showSuggestions :: bool
  isListening :: bool
  isSpeaking :: bool
  recognition :: "SpeechRecognition option"
  synthesis :: "SpeechSynthesis option"
  uploadedFiles :: "'v list"
  isDragging :: bool
  isUploading :: bool

definition initial :: "'v state" where
  "initial = \<lparr> messages = [], inputMessage = [], isLoading = False, isTyping = False,
     showSuggestions = True, isListening = False, isSpeaking = False,
     recognition = None, synthesis = None, uploadedFiles = [], isDragging = False,
     isUploading = False \<rparr>"

definition suggestions :: "jsstring list" where
  "suggestions =
    [js ''What can you do?'',
     js ''What's 25 '' @ [0xD7] @ js '' 17?'',
     js ''What time is it?'',
     js ''Tell me a joke'',
     js ''Help me with math'',
     js ''Search for latest news'']"

section \<open>Actions\<close>

text \<open>
  A handler is a sequence of actions, in program order: calls of the state setters and
  calls into the browser and the HTTP client. \<open>AppendMessage m\<close> is
  \<open>setMessages(prev => [...prev, m])\<close>. \<open>SetTimeout d text r\<close> is
  \<open>setTimeout(() => speakResponse(text), d)\<close>, where \<open>r\<close> is the render whose
  \<open>speakResponse\<close> the callback closes over.
\<close>

datatype body = ChatBody jsstring bool | FormData "(jsstring \<times> jsfile) list"

datatype 'v action =
    SetMessages "'v message list"
  | AppendMessage "'v message"
  | SetInputMessage jsstring
  | SetIsLoading bool
  | SetIsTyping bool
  | SetShowSuggestions bool
  | SetIsListening bool
  | SetIsSpeaking bool
  | SetRecognition "SpeechRecognition option"
  | SetSynthesis "SpeechSynthesis option"
  | SetUploadedFiles "'v list"
  | SetIsDragging bool
  | SetIsUploading bool
  | PreventDefault
  | ResetFileInput
  | ConsoleError
  | HttpGet jsstring
  | HttpPost jsstring body "(jsstring \<times> jsstring) list"
  | RecognitionStart
  | RecognitionStop
  | SynthesisCancel
  | SynthesisSpeak jsstring
  | SetTimeout nat jsstring "'v state"

fun apply_action :: "'v action \<Rightarrow> 'v state \<Rightarrow> 'v state" where
  "apply_action (SetMessages ms) s = s\<lparr>messages := ms\<rparr>"
| "apply_action (AppendMessage m) s = s\<lparr>messages := messages s @ [m]\<rparr>"
| "apply_action (SetInputMessage v) s = s\<lparr>inputMessage := v\<rparr>"
| "apply_action (SetIsLoading b) s = s\<lparr>isLoading := b\<rparr>"
| "apply_action (SetIsTyping b) s = s\<lparr>isTyping := b\<rparr>"
| "apply_action (SetShowSuggestions b) s = s\<lparr>showSuggestions := b\<rparr>"
| "apply_action (SetIsListening b) s = s\<lparr>isListening := b\<rparr>"
| "apply_action (SetIsSpeaking b) s = s\<lparr>isSpeaking := b\<rparr>"
| "apply_action (SetRecognition r) s = s\<lparr>recognition := r\<rparr>"
| "apply_action (SetSynthesis y) s = s\<lparr>synthesis := y\<rparr>"
| "apply_action (SetUploadedFiles fs) s = s\<lparr>uploadedFiles := fs\<rparr>"
| "apply_action (SetIsDragging b) s = s\<lparr>isDragging := b\<rparr>"
| "apply_action (SetIsUploading b) s = s\<lparr>isUploading := b\<rparr>"
| "apply_action _ s = s"

fun run :: "'v action list \<Rightarrow> 'v state \<Rightarrow> 'v state" where
  "run [] s = s"
| "run (a # as) s = run as (apply_action a s)"

fun is_http :: "'v action \<Rightarrow> bool" where
  "is_http (HttpGet u) = True"
| "is_http (HttpPost u b h) = True"
| "is_http _ = False"

fun endpoint :: "'v action \<Rightarrow> jsstring option" where
  "endpoint (HttpGet u) = Some u"
| "endpoint (HttpPost u b h) = Some u"
| "endpoint _ = None"

definition requests :: "'v action list \<Rightarrow> 'v action list" where
  "requests as = filter is_http as"

section \<open>The handlers of Chat.js\<close>

subsection \<open>Effects on mount\<close>

definition welcomeMessage :: "jstext \<Rightarrow> clock \<Rightarrow> 'v message" where
  "welcomeMessage username clk =
     \<lparr> id_msg = 1, role = Assistant,
       content = JStr (js ''Hey '' @ toString username @ js ''! '' @ [0xD83D, 0xDC4B]
         @ js '' I'm your AI assistant. I can help with calculations, questions, web searches, and I'll remember our conversations. You can type or use voice! What's on your mind?''),
       timestamp = iso clk, duration = None, error = False \<rparr>"

definition loadUploadedFiles :: "'v action list" where
  "loadUploadedFiles = [HttpGet (js ''/files'')]"

datatype 'v files_outcome = FilesResolved "'v list option" | FilesRejected

fun loadUploadedFiles_settle :: "'v files_outcome \<Rightarrow> 'v action list" where
  "loadUploadedFiles_settle (FilesResolved fs) =
     [SetUploadedFiles (case fs of Some l \<Rightarrow> l | None \<Rightarrow> [])]"
| "loadUploadedFiles_settle FilesRejected = [ConsoleError]"

text \<open>
  The four effects of the first render: the speech objects the window offers, the
  welcome message, and the first load of the file list.
\<close>

definition mount ::
  "SpeechRecognition option \<Rightarrow> SpeechSynthesis option \<Rightarrow> jstext \<Rightarrow> clock \<Rightarrow> 'v action list" where
  "mount r y username clk =
     (case r of Some i \<Rightarrow> [SetRecognition (Some i)] | None \<Rightarrow> [])
     @ (case y of Some w \<Rightarrow> [SetSynthesis (Some w)] | None \<Rightarrow> [])
     @ [SetMessages [welcomeMessage username clk]]
     @ loadUploadedFiles"

subsection \<open>File upload and drag and drop\<close>

text \<open>
  The outcome of the POST to the upload endpoint. By the backend's contract the body of
  a successful response carries a confirmation \<open>message\<close> and a file list \<open>files\<close>;
  \<open>handleFileUpload\<close> reads the \<open>message\<close> only.
\<close>

datatype 'v upload_outcome = UploadResolved jstext "'v list option" | UploadRejected

definition handleFileUpload :: "jsfile list option \<Rightarrow> 'v action list" where
  "handleFileUpload files =
     (case files of
        None \<Rightarrow> []
      | Some fs \<Rightarrow>
          if length fs = 0 then []
          else [SetIsUploading True,
                HttpPost (js ''/upload'') (FormData (map (\<lambda>f. (js ''files'', f)) fs))
                  [(js ''Content-Type'', js ''multipart/form-data'')]])"

definition successMessage :: "jstext \<Rightarrow> clock \<Rightarrow> 'v message" where
  "successMessage m clk =
     \<lparr> id_msg = now clk, role = Assistant,
       content = JStr (toString m @ js ''. Kya puchna hai?''),
       timestamp = iso clk, duration = None, error = False \<rparr>"

definition uploadErrorMessage :: "clock \<Rightarrow> 'v message" where
  "uploadErrorMessage clk =
     \<lparr> id_msg = now clk, role = Assistant,
       content = JStr (js ''File upload failed. Please try again.''),
       timestamp = iso clk, duration = None, error = True \<rparr>"

text \<open>
  The continuation of \<open>handleFileUpload\<close> after the POST: on success the confirmation
  and the reload of the file list, which is awaited; on failure the error message and
  the \<open>finally\<close> block.
\<close>

fun handleFileUpload_settle :: "clock \<Rightarrow> 'v upload_outcome \<Rightarrow> 'v action list" where
  "handleFileUpload_settle clk (UploadResolved m fl) =
     [AppendMessage (successMessage m clk)] @ loadUploadedFiles"
| "handleFileUpload_settle clk UploadRejected =
     [AppendMessage (uploadErrorMessage clk), SetIsUploading False]"

text \<open>The end of a successful upload, once the awaited reload has settled.\<close>

definition handleFileUpload_finish :: "'v files_outcome \<Rightarrow> 'v action list" where
  "handleFileUpload_finish out = loadUploadedFiles_settle out @ [SetIsUploading False]"

text \<open>A whole call of \<open>handleFileUpload\<close>, from the event to its \<open>finally\<close> block.\<close>

definition handleFileUpload_call ::
  "jsfile list option \<Rightarrow> clock \<Rightarrow> 'v upload_outcome \<Rightarrow> 'v files_outcome
     \<Rightarrow> 'v action list" where
  "handleFileUpload_call files clk up out =
     (if handleFileUpload files = ([] :: 'v action list) then []
      else handleFileUpload files @ handleFileUpload_settle clk up
           @ (case up of UploadResolved m fl \<Rightarrow> handleFileUpload_finish out
              | UploadRejected \<Rightarrow> []))"

definition handleDragOver :: "'v action list" where
  "handleDragOver = [PreventDefault, SetIsDragging True]"

definition handleDragLeave :: "'v action list" where
  "handleDragLeave = [PreventDefault, SetIsDragging False]"

definition handleDrop :: "jsfile list \<Rightarrow> 'v action list" where
  "handleDrop files = [PreventDefault, SetIsDragging False] @ handleFileUpload (Some files)"

definition handleFileInputChange :: "jsfile list option \<Rightarrow> 'v action list" where
  "handleFileInputChange files = handleFileUpload files @ [ResetFileInput]"

subsection \<open>Voice input and output\<close>

definition startListening :: "'v state \<Rightarrow> 'v action list" where
  "startListening s =
     (if recognition s \<noteq> None \<and> \<not> isListening s then [SetIsListening True, RecognitionStart]
      else [])"

definition stopListening :: "'v state \<Rightarrow> 'v action list" where
  "stopListening s =
     (if recognition s \<noteq> None \<and> isListening s then [RecognitionStop, SetIsListening False]
      else [])"

definition speakResponse :: "jsstring \<Rightarrow> 'v state \<Rightarrow> 'v action list" where
  "speakResponse text s =
     (if synthesis s \<noteq> None \<and> \<not> isSpeaking s then [SynthesisCancel, SynthesisSpeak text]
      else [])"

definition stopSpeaking :: "'v state \<Rightarrow> 'v action list" where
  "stopSpeaking s =
     (if synthesis s \<noteq> None then [SynthesisCancel, SetIsSpeaking False] else [])"

subsection \<open>Sending a message\<close>

datatype 'v chat_outcome = ChatResolved jstext "'v option" | ChatRejected

text \<open>\<open>messageText || inputMessage.trim()\<close>: \<open>null\<close> and the empty string are falsy.\<close>

definition message_of :: "jsstring option \<Rightarrow> 'v state \<Rightarrow> jsstring" where
  "message_of messageText s =
     (case messageText of
        None \<Rightarrow> trim (inputMessage s)
      | Some t \<Rightarrow> if t = [] then trim (inputMessage s) else t)"

definition userMessage :: "jsstring \<Rightarrow> clock \<Rightarrow> 'v message" where
  "userMessage m clk =
     \<lparr> id_msg = now clk, role = User, content = JStr m, timestamp = iso clk,
       duration = None, error = False \<rparr>"

definition assistantMessage :: "jstext \<Rightarrow> 'v option \<Rightarrow> clock \<Rightarrow> 'v message" where
  "assistantMessage c d clk =
     \<lparr> id_msg = now clk + 1, role = Assistant, content = c, timestamp = iso clk,
       duration = d, error = False \<rparr>"

definition chatErrorMessage :: "clock \<Rightarrow> 'v message" where
  "chatErrorMessage clk =
     \<lparr> id_msg = now clk + 1, role = Assistant,
       content = JStr (js ''Sorry, something went wrong. Please try again!''),
       timestamp = iso clk, duration = None, error = True \<rparr>"

text \<open>The synchronous part of \<open>sendMessage\<close>, up to the \<open>await\<close>.\<close>

definition sendMessage :: "clock \<Rightarrow> jsstring option \<Rightarrow> 'v state \<Rightarrow> 'v action list" where
  "sendMessage clk messageText s =
     (let message = message_of messageText s in
      if message = [] \<or> isLoading s then []
      else [AppendMessage (userMessage message clk),
            SetInputMessage [],
            SetIsLoading True,
            SetIsTyping True,
            SetShowSuggestions False,
            HttpPost (js ''/chat'') (ChatBody message False) []])"

text \<open>
  The continuation after the POST. \<open>r\<close> is the render in which \<open>sendMessage\<close> was
  called. Reading \<open>.length\<close> of a missing or \<open>null\<close> content throws inside the \<open>try\<close>
  block, after the assistant message was appended; the \<open>catch\<close> block then reads the
  clock again (\<open>clk2\<close>).
\<close>

fun sendMessage_settle ::
  "clock \<Rightarrow> clock \<Rightarrow> 'v state \<Rightarrow> 'v chat_outcome \<Rightarrow> 'v action list" where
  "sendMessage_settle clk clk2 r (ChatResolved c d) =
     AppendMessage (assistantMessage c d clk)
     # (case c of
          JStr t \<Rightarrow> if length t < 200 then [SetTimeout 500 t r] else []
        | _ \<Rightarrow> [AppendMessage (chatErrorMessage clk2)])
     @ [SetIsLoading False, SetIsTyping False]"
| "sendMessage_settle clk clk2 r ChatRejected =
     [AppendMessage (chatErrorMessage clk), SetIsLoading False, SetIsTyping False]"

text \<open>A whole call of \<open>sendMessage\<close>, from the event to its \<open>finally\<close> block.\<close>

definition sendMessage_call ::
  "clock \<Rightarrow> jsstring option \<Rightarrow> 'v state \<Rightarrow> clock \<Rightarrow> clock \<Rightarrow> 'v chat_outcome \<Rightarrow> 'v action list" where
  "sendMessage_call clk messageText s clk1 clk2 out =
     (if sendMessage clk messageText s = [] then []
      else sendMessage clk messageText s @ sendMessage_settle clk1 clk2 s out)"

definition handleKeyDown :: "clock \<Rightarrow> jsstring \<Rightarrow> bool \<Rightarrow> 'v state \<Rightarrow> 'v action list" where
  "handleKeyDown clk key shiftKey s =
     (if key = js ''Enter'' \<and> \<not> shiftKey then PreventDefault # sendMessage clk None s else [])"

section \<open>The component in its environment\<close>

text \<open>
  A configuration is the state of the component together with what is in flight around
  it. \<open>ui\<close> is the newest state, with every setter called so far applied; \<open>rendered\<close>
  is the state of the last render, whose constants the attached handlers close over.
  A handler reads \<open>rendered\<close> and its setters update \<open>ui\<close>; the two differ until the
  component renders again, so several events may be handled against one render.
  In flight are the POSTs to the chat endpoint (each with the render its continuation
  closes over), the POSTs to the upload endpoint, the GETs of the file list (flagged
  when a call of \<open>handleFileUpload\<close> awaits it), the timers set for auto-speech (each
  with the text and the render its callback closes over) and the utterances handed to
  the synthesiser. \<open>log\<close> holds every action performed so far.
\<close>

record 'v config =
  ui :: "'v state"
  rendered :: "'v state"
  chat_pending :: "'v state list"
  upload_pending :: nat
  files_pending :: "bool list"
  timers :: "(jsstring \<times> 'v state) list"
  utterances :: nat
  log :: "'v action list"

fun is_post_to :: "jsstring \<Rightarrow> 'v action \<Rightarrow> bool" where
  "is_post_to u (HttpPost u' b h) = (u' = u)"
| "is_post_to u _ = False"

fun is_get_of :: "jsstring \<Rightarrow> 'v action \<Rightarrow> bool" where
  "is_get_of u (HttpGet u') = (u' = u)"
| "is_get_of u _ = False"

fun is_speak :: "'v action \<Rightarrow> bool" where
  "is_speak (SynthesisSpeak t) = True"
| "is_speak _ = False"

fun timeouts :: "'v action list \<Rightarrow> (jsstring \<times> 'v state) list" where
  "timeouts [] = []"
| "timeouts (SetTimeout d t r # as) = (t, r) # timeouts as"
| "timeouts (a # as) = timeouts as"

definition perform :: "bool \<Rightarrow> 'v action list \<Rightarrow> 'v config \<Rightarrow> 'v config" where
  "perform aw as c =
     c\<lparr> ui := run as (ui c),
        chat_pending := chat_pending c
          @ map (\<lambda>a. rendered c) (filter (is_post_to (js ''/chat'')) as),
        upload_pending := upload_pending c + length (filter (is_post_to (js ''/upload'')) as),
        files_pending := files_pending c @ map (\<lambda>a. aw) (filter (is_get_of (js ''/files'')) as),
        timers := timers c @ timeouts as,
        utterances := utterances c + length (filter is_speak as),
        log := log c @ as \<rparr>"

definition drop_at :: "nat \<Rightarrow> 'a list \<Rightarrow> 'a list" where
  "drop_at i xs = take i xs @ drop (Suc i) xs"

definition mounted ::
  "SpeechRecognition option \<Rightarrow> SpeechSynthesis option \<Rightarrow> jstext \<Rightarrow> clock \<Rightarrow> 'v config" where
  "mounted r y username clk =
     perform False (mount r y username clk)
       \<lparr> ui = initial, rendered = initial, chat_pending = [], upload_pending = 0,
         files_pending = [], timers = [], utterances = 0, log = [] \<rparr>"

datatype 'v event =
    Render
  | UserChanged jstext clock
  | InputChange jsstring
  | RecognitionResult jsstring
  | RecognitionError
  | RecognitionEnd
  | DragOver
  | DragLeave
  | Drop "jsfile list"
  | FileInputChange "jsfile list option"
  | MicClick
  | SpeakClick nat
  | StopSpeakingClick
  | UtteranceStart
  | UtteranceEnd
  | UtteranceError
  | SendClick clock
  | KeyDown clock jsstring bool
  | SuggestionClick nat clock
  | ChatSettled nat clock clock "'v chat_outcome"
  | UploadSettled clock "'v upload_outcome"
  | FilesSettled nat "'v files_outcome"
  | TimerFired nat

text \<open>
  An event is enabled when its source exists: a recognition instance for the recognition
  callbacks, an utterance for the utterance callbacks, a rendered message or a suggestion
  for the button beside it, something in flight for a continuation. A render may happen
  at any time.
\<close>

fun enabled :: "'v event \<Rightarrow> 'v config \<Rightarrow> bool" where
  "enabled (RecognitionResult transcript) c = (recognition (ui c) \<noteq> None)"
| "enabled RecognitionError c = (recognition (ui c) \<noteq> None)"
| "enabled RecognitionEnd c = (recognition (ui c) \<noteq> None)"
| "enabled (SpeakClick i) c = (i < length (messages (rendered c)))"
| "enabled UtteranceStart c = (0 < utterances c)"
| "enabled UtteranceEnd c = (0 < utterances c)"
| "enabled UtteranceError c = (0 < utterances c)"
| "enabled (SuggestionClick i clk) c = (i < length suggestions)"
| "enabled (ChatSettled i clk clk2 out) c = (i < length (chat_pending c))"
| "enabled (UploadSettled clk up) c = (0 < upload_pending c)"
| "enabled (FilesSettled i out) c = (i < length (files_pending c))"
| "enabled (TimerFired i) c = (i < length (timers c))"
| "enabled _ c = True"

text \<open>The handler or continuation that an event runs, as its actions.\<close>

fun actions :: "'v event \<Rightarrow> 'v config \<Rightarrow> 'v action list" where
  "actions Render c = []"
| "actions (UserChanged username clk) c = [SetMessages [welcomeMessage username clk]]"
| "actions (InputChange v) c = [SetInputMessage v]"
| "actions (RecognitionResult transcript) c = [SetInputMessage transcript, SetIsListening False]"
| "actions RecognitionError c = [SetIsListening False]"
| "actions RecognitionEnd c = [SetIsListening False]"
| "actions DragOver c = handleDragOver"
| "actions DragLeave c = handleDragLeave"
| "actions (Drop files) c = handleDrop files"
| "actions (FileInputChange files) c = handleFileInputChange files"
| "actions MicClick c =
     (if isListening (rendered c) then stopListening (rendered c)
      else startListening (rendered c))"
| "actions (SpeakClick i) c =
     speakResponse (toString (content (messages (rendered c) ! i))) (rendered c)"
| "actions StopSpeakingClick c = stopSpeaking (rendered c)"
| "actions UtteranceStart c = [SetIsSpeaking True]"
| "actions UtteranceEnd c = [SetIsSpeaking False]"
| "actions UtteranceError c = [SetIsSpeaking False]"
| "actions (SendClick clk) c = sendMessage clk None (rendered c)"
| "actions (KeyDown clk key shiftKey) c = handleKeyDown clk key shiftKey (rendered c)"
| "actions (SuggestionClick i clk) c = sendMessage clk (Some (suggestions ! i)) (rendered c)"
| "actions (ChatSettled i clk clk2 out) c = sendMessage_settle clk clk2 (chat_pending c ! i) out"
| "actions (UploadSettled clk up) c = handleFileUpload_settle clk up"
| "actions (FilesSettled i out) c =
     (if files_pending c ! i then handleFileUpload_finish out else loadUploadedFiles_settle out)"
| "actions (TimerFired i) c = speakResponse (fst (timers c ! i)) (snd (timers c ! i))"

text \<open>
  What an event takes out of flight. A render takes the newest state as the one the
  handlers close over.
\<close>

fun consume :: "'v event \<Rightarrow> 'v config \<Rightarrow> 'v config" where
  "consume Render c = c\<lparr>rendered := ui c\<rparr>"
| "consume UtteranceEnd c = c\<lparr>utterances := utterances c - 1\<rparr>"
| "consume UtteranceError c = c\<lparr>utterances := utterances c - 1\<rparr>"
| "consume (ChatSettled i clk clk2 out) c = c\<lparr>chat_pending := drop_at i (chat_pending c)\<rparr>"
| "consume (UploadSettled clk up) c = c\<lparr>upload_pending := upload_pending c - 1\<rparr>"
| "consume (FilesSettled i out) c = c\<lparr>files_pending := drop_at i (files_pending c)\<rparr>"
| "consume (TimerFired i) c = c\<lparr>timers := drop_at i (timers c)\<rparr>"
| "consume _ c = c"

text \<open>Only the reload that follows a successful upload is awaited by its caller.\<close>

fun awaited :: "'v event \<Rightarrow> bool" where
  "awaited (UploadSettled clk up) = True"
| "awaited _ = False"

definition step :: "'v event \<Rightarrow> 'v config \<Rightarrow> 'v config option" where
  "step e c =
     (if enabled e c then Some (perform (awaited e) (actions e c) (consume e c)) else None)"

inductive reachable :: "'v config \<Rightarrow> bool" where
  reach_mounted: "reachable (mounted r y username clk)"
| reach_step: "reachable c \<Longrightarrow> step e c = Some c' \<Longrightarrow> reachable c'"

text \<open>Nothing in flight, and the newest state rendered.\<close>

definition quiescent :: "'v config \<Rightarrow> bool" where
  "quiescent c \<longleftrightarrow>
     chat_pending c = [] \<and> upload_pending c = 0 \<and> files_pending c = [] \<and> timers c = []
     \<and> rendered c = ui c"

section \<open>Runs and invariants\<close>

text \<open>A run of events from a configuration; \<open>None\<close> when an event is not enabled.\<close>

fun after :: "'v event list \<Rightarrow> 'v config \<Rightarrow> 'v config option" where
  "after [] c = Some c"
| "after (e # es) c = (case step e c of None \<Rightarrow> None | Some c' \<Rightarrow> after es c')"

text \<open>
  Events that call \<open>sendMessage\<close>, and the continuation of a chat request.
\<close>

fun is_send :: "'v event \<Rightarrow> bool" where
  "is_send (SendClick clk) = True"
| "is_send (KeyDown clk key shiftKey) = True"
| "is_send (SuggestionClick i clk) = True"
| "is_send _ = False"

fun is_chat_settled :: "'v event \<Rightarrow> bool" where
  "is_chat_settled (ChatSettled i clk clk2 out) = True"
| "is_chat_settled _ = False"

text \<open>Actions that touch neither the two loading flags nor the chat endpoint.\<close>

fun typing_neutral :: "'v action \<Rightarrow> bool" where
  "typing_neutral (SetIsTyping b) = False"
| "typing_neutral (SetIsLoading b) = False"
| "typing_neutral (HttpPost u b h) = (u \<noteq> js ''/chat'')"
| "typing_neutral _ = True"

text \<open>
  The loading flags are set only while a chat request is in flight.
\<close>

definition typing_inv :: "'v config \<Rightarrow> bool" where
  "typing_inv c \<longleftrightarrow>
     (isTyping (ui c) \<longrightarrow> chat_pending c \<noteq> [])
     \<and> (isLoading (ui c) \<longrightarrow> chat_pending c \<noteq> [])"

text \<open>
  Actions that keep the speech objects: none replaces them, listening starts only with
  a recognition instance (\<open>hr\<close>), speaking only with a synthesiser (\<open>hs\<close>), and a
  timer closes over a render with a synthesiser only when there is one.
\<close>

fun speech_ok :: "bool \<Rightarrow> bool \<Rightarrow> 'v action \<Rightarrow> bool" where
  "speech_ok hr hs (SetRecognition r) = False"
| "speech_ok hr hs (SetSynthesis w) = False"
| "speech_ok hr hs (SetIsListening b) = (b \<longrightarrow> hr)"
| "speech_ok hr hs (SetIsSpeaking b) = (b \<longrightarrow> hs)"
| "speech_ok hr hs (SynthesisSpeak t) = hs"
| "speech_ok hr hs (SetTimeout d t r) = (synthesis r \<noteq> None \<longrightarrow> hs)"
| "speech_ok hr hs _ = True"

definition speech_inv :: "'v config \<Rightarrow> bool" where
  "speech_inv c \<longleftrightarrow>
     (isListening (ui c) \<longrightarrow> recognition (ui c) \<noteq> None)
     \<and> (isSpeaking (ui c) \<longrightarrow> synthesis (rendered c) \<noteq> None)
     \<and> (0 < utterances c \<longrightarrow> synthesis (rendered c) \<noteq> None)
     \<and> (recognition (rendered c) \<noteq> None \<longrightarrow> recognition (ui c) \<noteq> None)
     \<and> (synthesis (rendered c) \<noteq> None \<longrightarrow> synthesis (ui c) \<noteq> None)
     \<and> (\<forall>r \<in> set (chat_pending c). synthesis r \<noteq> None \<longrightarrow> synthesis (rendered c) \<noteq> None)
     \<and> (\<forall>p \<in> set (timers c). synthesis (snd p) \<noteq> None \<longrightarrow> synthesis (rendered c) \<noteq> None)"

text \<open>Actions that set no timer but the one of 500 ms for a text below 200 code units.\<close>

fun short_timer :: "'v action \<Rightarrow> bool" where
  "short_timer (SetTimeout d t r) = (d = 500 \<and> length t < 200)"
| "short_timer _ = True"

text \<open>The requests the component makes.\<close>

fun allowed_request :: "'v action \<Rightarrow> bool" where
  "allowed_request (HttpGet u) = (u = js ''/files'')"
| "allowed_request (HttpPost u b h) = (u = js ''/chat'' \<or> u = js ''/upload'')"
| "allowed_request _ = True"

section \<open>Sample inputs\<close>

definition sample_clock :: clock where
  "sample_clock = \<lparr> now = 1700000000000, iso = js ''2023-11-14T22:13:20.000Z'' \<rparr>"

definition typed_hi :: "nat state" where
  "typed_hi = initial\<lparr>inputMessage := js '' hi ''\<rparr>"

definition typed_blank :: "nat state" where
  "typed_blank = initial\<lparr>inputMessage := js ''   ''\<rparr>"

definition sample_mounted :: "nat config" where
  "sample_mounted =
     mounted (Some RecognitionInstance) (Some WindowSpeechSynthesis) (JStr (js ''ann'')) sample_clock"

text \<open>
  A render after the effects of the first render, with \<^verbatim>\<open> hi \<close> typed into the
  input, and the configuration in which it is the newest state and nothing is in
  flight.
\<close>

definition sample_render :: "nat state" where
  "sample_render =
     (run (mount (Some RecognitionInstance) (Some WindowSpeechSynthesis)
            (JStr (js ''ann'')) sample_clock) initial)\<lparr>inputMessage := js '' hi ''\<rparr>"

definition sample_idle :: "nat config" where
  "sample_idle =
     \<lparr> ui = sample_render, rendered = sample_render,
       chat_pending = [], upload_pending = 0, files_pending = [], timers = [], utterances = 0,
       log = mount (Some RecognitionInstance) (Some WindowSpeechSynthesis)
               (JStr (js ''ann'')) sample_clock @ [ConsoleError, SetInputMessage (js '' hi '')] \<rparr>"

definition sample_voice :: "nat state" where
  "sample_voice = (ui sample_idle)\<lparr>isListening := True, isSpeaking := True\<rparr>"

text \<open>
  Send is clicked twice before the component renders again, the first request is
  answered with \<^verbatim>\<open>ok\<close>, and the timer set for that reply fires.
\<close>

definition sample_sent :: "nat config" where
  "sample_sent = perform False (sendMessage sample_clock None sample_render) sample_idle"

definition sample_sent_twice :: "nat config" where
  "sample_sent_twice = perform False (sendMessage sample_clock None sample_render) sample_sent"

definition sample_replied :: "nat config" where
  "sample_replied =
     perform False
       (sendMessage_settle sample_clock sample_clock sample_render
          (ChatResolved (JStr (js ''ok'')) None))
       (sample_sent_twice\<lparr>chat_pending := [sample_render]\<rparr>)"

definition sample_spoken :: "nat config" where
  "sample_spoken =
     perform False (speakResponse (js ''ok'') sample_render) (sample_replied\<lparr>timers := []\<rparr>)"

text \<open>A reply of one hundred waving hands: a hundred characters, two hundred code units.\<close>

definition hundred_waves :: jsstring where
  "hundred_waves = concat (replicate 100 [0xD83D, 0xDC4B])"

section \<open>Basic facts\<close>

lemma run_append: "run (as @ bs) s = run bs (run as s)"
  by (induction as arbitrary: s) simp_all

lemma perform_Nil: "perform aw [] c = c"
  by (simp add: perform_def)

lemma message_nonempty:
  "trim (inputMessage s) \<noteq> [] \<Longrightarrow> message_of messageText s \<noteq> []"
  by (simp add: message_of_def split: option.splits)

lemma typed_hi_trim: "trim (inputMessage typed_hi) = js ''hi''"
  by (simp add: typed_hi_def trim_def js_def isWhiteSpace_def)

lemma typed_hi_nonempty: "trim (inputMessage typed_hi) \<noteq> []"
  by (simp add: typed_hi_trim) (simp add: js_def)

lemma typed_hi_idle: "\<not> isLoading typed_hi"
  by (simp add: typed_hi_def initial_def)

lemma endpoints_distinct [simp]:
  "js ''/chat'' \<noteq> js ''/upload''" "js ''/upload'' \<noteq> js ''/chat''"
  "js ''/chat'' \<noteq> js ''/files''" "js ''/files'' \<noteq> js ''/chat''"
  "js ''/upload'' \<noteq> js ''/files''" "js ''/files'' \<noteq> js ''/upload''"
  by (simp_all add: js_def)

lemmas handler_defs =
  handleDragOver_def handleDragLeave_def handleDrop_def handleFileInputChange_def
  handleFileUpload_def startListening_def stopListening_def speakResponse_def
  stopSpeaking_def loadUploadedFiles_def handleFileUpload_finish_def

lemma in_set_drop_at: "x \<in> set (drop_at i xs) \<Longrightarrow> x \<in> set xs"
  by (auto simp: drop_at_def dest: in_set_takeD in_set_dropD)

lemma perform_sel:
  "ui (perform aw as c) = run as (ui c)"
  "rendered (perform aw as c) = rendered c"
  "chat_pending (perform aw as c)
     = chat_pending c @ map (\<lambda>a. rendered c) (filter (is_post_to (js ''/chat'')) as)"
  "timers (perform aw as c) = timers c @ timeouts as"
  "utterances (perform aw as c) = utterances c + length (filter is_speak as)"
  "log (perform aw as c) = log c @ as"
  by (simp_all add: perform_def)

lemma consume_ui: "ui (consume e c) = ui c"
  by (cases e) simp_all

lemma consume_rendered: "e \<noteq> Render \<Longrightarrow> rendered (consume e c) = rendered c"
  by (cases e) simp_all

lemma consume_chat: "\<not> is_chat_settled e \<Longrightarrow> chat_pending (consume e c) = chat_pending c"
  by (cases e) simp_all

lemma consume_log: "log (consume e c) = log c"
  by (cases e) simp_all

lemma consume_subset:
  "set (chat_pending (consume e c)) \<subseteq> set (chat_pending c)"
  "set (timers (consume e c)) \<subseteq> set (timers c)"
  "utterances (consume e c) \<le> utterances c"
  by (cases e; auto dest: in_set_drop_at)+

lemma step_unfold:
  "step e c = Some c' \<Longrightarrow>
     enabled e c \<and> c' = perform (awaited e) (actions e c) (consume e c)"
  by (simp add: step_def split: if_splits)

lemma reachable_after: "reachable c \<Longrightarrow> after es c = Some c' \<Longrightarrow> reachable c'"
proof (induction es arbitrary: c)
  case Nil
  then show ?case by simp
next
  case (Cons e es)
  then show ?case by (auto split: option.splits intro: reach_step)
qed

subsection \<open>The loading flags\<close>

lemma run_typing_neutral:
  "list_all typing_neutral as \<Longrightarrow>
     isTyping (run as s) = isTyping s \<and> isLoading (run as s) = isLoading s
     \<and> filter (is_post_to (js ''/chat'')) as = []"
proof (induction as arbitrary: s)
  case Nil
  then show ?case by simp
next
  case (Cons a as)
  then show ?case by (cases a) simp_all
qed

lemma actions_typing_neutral:
  "\<not> is_send e \<Longrightarrow> \<not> is_chat_settled e \<Longrightarrow> list_all typing_neutral (actions e c)"
proof (cases e)
  case (UploadSettled clk up)
  then show ?thesis by (cases up) (simp_all add: handler_defs)
next
  case (FilesSettled i out)
  then show ?thesis by (cases out) (simp_all add: handler_defs)
next
  case (FileInputChange files)
  then show ?thesis by (simp add: handler_defs split: option.splits)
qed (simp_all add: handler_defs)

text \<open>
  A call of \<open>sendMessage\<close> against the render \<open>r\<close>, with its setters applied to the
  newest state \<open>s\<close>: either nothing, or both flags set and one POST to the chat endpoint.
\<close>

lemma sendMessage_typing:
  "sendMessage clk mt r = [] \<or>
   (isTyping (run (sendMessage clk mt r) s) \<and> isLoading (run (sendMessage clk mt r) s)
    \<and> filter (is_post_to (js ''/chat'')) (sendMessage clk mt r)
        = [HttpPost (js ''/chat'') (ChatBody (message_of mt r) False) []])"
  by (simp add: sendMessage_def Let_def)

lemma settle_typing:
  "filter (is_post_to u) (sendMessage_settle clk clk2 r out) = []"
  "isTyping (run (sendMessage_settle clk clk2 r out) s) = False"
  "isLoading (run (sendMessage_settle clk clk2 r out) s) = False"
  by (cases out; simp split: jstext.splits)+

lemma send_actions:
  assumes "is_send e"
  shows "(isTyping (run (actions e c) s) = isTyping s
          \<and> isLoading (run (actions e c) s) = isLoading s
          \<and> filter (is_post_to (js ''/chat'')) (actions e c) = [])
    \<or> (isTyping (run (actions e c) s) \<and> isLoading (run (actions e c) s)
        \<and> length (filter (is_post_to (js ''/chat'')) (actions e c)) = 1)"
proof (cases e)
  case (SendClick clk)
  then show ?thesis
    by (simp add: sendMessage_def Let_def)
next
  case (SuggestionClick i clk)
  then show ?thesis
    by (simp add: sendMessage_def Let_def)
next
  case (KeyDown clk key shiftKey)
  then show ?thesis
    by (simp add: handleKeyDown_def sendMessage_def Let_def)
qed (use assms in simp_all)

lemma typing_inv_mounted: "typing_inv (mounted r y u clk)"
  by (cases r; cases y)
     (simp_all add: typing_inv_def mounted_def mount_def perform_def initial_def
        loadUploadedFiles_def)

lemma typing_inv_step:
  assumes "typing_inv c" and "step e c = Some c'"
  shows "typing_inv c'"
proof -
  from step_unfold [OF assms(2)] have en: "enabled e c"
    and c': "c' = perform (awaited e) (actions e c) (consume e c)"
    by simp_all
  consider (send) "is_send e" | (settle) "is_chat_settled e"
    | (other) "\<not> is_send e" "\<not> is_chat_settled e" by blast
  then show ?thesis
  proof cases
    case send
    then have "chat_pending (consume e c) = chat_pending c"
      by (cases e) simp_all
    with send_actions [OF send, where c = c and s = "ui c"] assms(1) c' show ?thesis
      by (auto simp: typing_inv_def perform_sel consume_ui)
  next
    case settle
    then obtain i clk clk2 out where e: "e = ChatSettled i clk clk2 out"
      by (cases e) simp_all
    with c' show ?thesis
      by (simp add: typing_inv_def perform_sel settle_typing)
  next
    case other
    from run_typing_neutral [OF actions_typing_neutral [OF other], of c "ui c"]
    show ?thesis
      using assms(1) c' other
      by (simp add: typing_inv_def perform_sel consume_ui consume_chat)
  qed
qed

lemma typing_inv_reachable: "reachable c \<Longrightarrow> typing_inv c"
  by (induction rule: reachable.induct) (auto intro: typing_inv_mounted typing_inv_step)

lemma typing_rise:
  assumes "step e c = Some c'" and "\<not> isTyping (ui c)" and "isTyping (ui c')"
  shows "is_send e \<and> chat_pending c' = chat_pending c @ [rendered c]"
proof -
  from step_unfold [OF assms(1)]
  have c': "c' = perform (awaited e) (actions e c) (consume e c)"
    by simp
  consider (send) "is_send e" | (settle) "is_chat_settled e"
    | (other) "\<not> is_send e" "\<not> is_chat_settled e" by blast
  then show ?thesis
  proof cases
    case send
    then have k: "chat_pending (consume e c) = chat_pending c"
      "rendered (consume e c) = rendered c"
      by (cases e; simp)+
    from c' assms(3) have "isTyping (run (actions e c) (ui c))"
      by (simp add: perform_sel consume_ui)
    with send_actions [OF send, where c = c and s = "ui c"] assms(2)
    have "length (filter (is_post_to (js ''/chat'')) (actions e c)) = 1"
      by auto
    then have "map (\<lambda>a. rendered c) (filter (is_post_to (js ''/chat'')) (actions e c))
        = [rendered c]"
      by (cases "filter (is_post_to (js ''/chat'')) (actions e c)") simp_all
    with send c' k show ?thesis
      by (simp add: perform_sel)
  next
    case settle
    then obtain i clk clk2 out where "e = ChatSettled i clk clk2 out"
      by (cases e) simp_all
    with c' assms(3) show ?thesis
      by (simp add: perform_sel settle_typing)
  next
    case other
    from run_typing_neutral [OF actions_typing_neutral [OF other], of c "ui c"] c' assms(2,3)
    show ?thesis by (simp add: perform_sel consume_ui)
  qed
qed

lemma typing_set_true:
  assumes "SetIsTyping True \<in> set (actions e c)"
  shows "is_send e \<and> filter (is_post_to (js ''/chat'')) (actions e c) \<noteq> []"
proof -
  consider (send) "is_send e" | (settle) "is_chat_settled e"
    | (other) "\<not> is_send e" "\<not> is_chat_settled e" by blast
  then show ?thesis
  proof cases
    case send
    with assms show ?thesis
      by (cases e) (auto simp: sendMessage_def Let_def handleKeyDown_def split: if_splits)
  next
    case settle
    then obtain i clk clk2 out where "e = ChatSettled i clk clk2 out"
      by (cases e) simp_all
    with assms show ?thesis
      by (cases out) (auto split: jstext.splits if_splits)
  next
    case other
    from actions_typing_neutral [OF other, of c] assms show ?thesis
      by (auto simp: list_all_iff)
  qed
qed

subsection \<open>The speech objects\<close>

lemma run_speech_ok:
  "list_all (speech_ok hr hs) as \<Longrightarrow>
     recognition (run as s) = recognition s \<and> synthesis (run as s) = synthesis s
     \<and> (isListening (run as s) \<longrightarrow> isListening s \<or> hr)
     \<and> (isSpeaking (run as s) \<longrightarrow> isSpeaking s \<or> hs)
     \<and> (filter is_speak as \<noteq> [] \<longrightarrow> hs)
     \<and> (\<forall>p \<in> set (timeouts as). synthesis (snd p) \<noteq> None \<longrightarrow> hs)"
proof (induction as arbitrary: s)
  case Nil
  then show ?case by simp
next
  case (Cons a as)
  from Cons.prems have "list_all (speech_ok hr hs) as"
    by simp
  from Cons.IH [OF this, of "apply_action a s"] Cons.prems show ?case
    by (cases a) auto
qed

lemma sendMessage_speech_ok: "list_all (speech_ok hr hs) (sendMessage clk mt s)"
  by (simp add: sendMessage_def Let_def)

lemma actions_speech_ok:
  assumes "speech_inv c" and "enabled e c"
  shows "list_all (speech_ok (recognition (ui c) \<noteq> None) (synthesis (rendered c) \<noteq> None))
           (actions e c)"
proof (cases e)
  case (ChatSettled i clk clk2 out)
  with assms nth_mem [of i "chat_pending c"]
  have "synthesis (chat_pending c ! i) \<noteq> None \<longrightarrow> synthesis (rendered c) \<noteq> None"
    by (auto simp: speech_inv_def)
  with ChatSettled show ?thesis
    by (cases out) (simp_all split: jstext.splits)
next
  case (UploadSettled clk up)
  then show ?thesis by (cases up) (simp_all add: handler_defs)
next
  case (FilesSettled i out)
  then show ?thesis by (cases out) (simp_all add: handler_defs)
next
  case (FileInputChange files)
  then show ?thesis by (simp add: handler_defs split: option.splits)
next
  case (TimerFired i)
  with assms nth_mem [of i "timers c"]
  have "synthesis (snd (timers c ! i)) \<noteq> None \<longrightarrow> synthesis (rendered c) \<noteq> None"
    by (auto simp: speech_inv_def)
  with TimerFired show ?thesis by (simp add: handler_defs)
next
  case UtteranceStart
  with assms show ?thesis by (simp add: speech_inv_def)
next
  case MicClick
  with assms show ?thesis by (simp add: handler_defs speech_inv_def)
next
  case (KeyDown clk key shiftKey)
  then show ?thesis by (simp add: handleKeyDown_def sendMessage_speech_ok)
qed (simp_all add: handler_defs sendMessage_speech_ok)

lemma speech_inv_mounted: "speech_inv (mounted r y u clk)"
  by (cases r; cases y)
     (simp_all add: speech_inv_def mounted_def mount_def perform_def initial_def
        loadUploadedFiles_def)

lemma speech_inv_step:
  assumes "speech_inv c" and "step e c = Some c'"
  shows "speech_inv c'"
proof (cases "e = Render")
  case True
  with step_unfold [OF assms(2)] have "c' = c\<lparr>rendered := ui c\<rparr>"
    by (simp add: perform_Nil)
  with assms(1) show ?thesis
    by (simp add: speech_inv_def)
next
  case False
  from step_unfold [OF assms(2)] have en: "enabled e c"
    and c': "c' = perform (awaited e) (actions e c) (consume e c)"
    by simp_all
  from assms(1) have
    A: "isListening (ui c) \<longrightarrow> recognition (ui c) \<noteq> None" and
    B: "isSpeaking (ui c) \<longrightarrow> synthesis (rendered c) \<noteq> None" and
    C: "0 < utterances c \<longrightarrow> synthesis (rendered c) \<noteq> None" and
    D: "recognition (rendered c) \<noteq> None \<longrightarrow> recognition (ui c) \<noteq> None" and
    E: "synthesis (rendered c) \<noteq> None \<longrightarrow> synthesis (ui c) \<noteq> None" and
    F: "\<forall>r \<in> set (chat_pending c). synthesis r \<noteq> None \<longrightarrow> synthesis (rendered c) \<noteq> None" and
    G: "\<forall>p \<in> set (timers c). synthesis (snd p) \<noteq> None \<longrightarrow> synthesis (rendered c) \<noteq> None"
    by (simp_all add: speech_inv_def)
  from run_speech_ok [OF actions_speech_ok [OF assms(1) en], of "ui c"] have
    R: "recognition (run (actions e c) (ui c)) = recognition (ui c)" and
    S: "synthesis (run (actions e c) (ui c)) = synthesis (ui c)" and
    L: "isListening (run (actions e c) (ui c))
          \<longrightarrow> isListening (ui c) \<or> recognition (ui c) \<noteq> None" and
    P: "isSpeaking (run (actions e c) (ui c))
          \<longrightarrow> isSpeaking (ui c) \<or> synthesis (rendered c) \<noteq> None" and
    K: "filter is_speak (actions e c) \<noteq> [] \<longrightarrow> synthesis (rendered c) \<noteq> None" and
    T: "\<forall>p \<in> set (timeouts (actions e c)).
          synthesis (snd p) \<noteq> None \<longrightarrow> synthesis (rendered c) \<noteq> None"
    by simp_all
  have u: "ui c' = run (actions e c) (ui c)" and r: "rendered c' = rendered c"
    by (simp_all add: c' perform_sel consume_ui consume_rendered [OF False])
  have 1: "isListening (ui c') \<longrightarrow> recognition (ui c') \<noteq> None"
    using A L R u by auto
  have 2: "isSpeaking (ui c') \<longrightarrow> synthesis (rendered c') \<noteq> None"
    using B P u r by auto
  have 3: "0 < utterances c' \<longrightarrow> synthesis (rendered c') \<noteq> None"
  proof
    assume "0 < utterances c'"
    then have "0 < utterances (consume e c) \<or> filter is_speak (actions e c) \<noteq> []"
      by (auto simp: c' perform_sel)
    with consume_subset(3) [of e c] C K r show "synthesis (rendered c') \<noteq> None"
      by auto
  qed
  have 4: "recognition (rendered c') \<noteq> None \<longrightarrow> recognition (ui c') \<noteq> None"
    using D R u r by simp
  have 5: "synthesis (rendered c') \<noteq> None \<longrightarrow> synthesis (ui c') \<noteq> None"
    using E S u r by simp
  have 6: "\<forall>x \<in> set (chat_pending c'). synthesis x \<noteq> None \<longrightarrow> synthesis (rendered c') \<noteq> None"
  proof
    fix x
    assume "x \<in> set (chat_pending c')"
    then have "x \<in> set (chat_pending (consume e c)) \<or> x = rendered c"
      by (auto simp: c' perform_sel consume_rendered [OF False])
    with consume_subset(1) [of e c] F r
    show "synthesis x \<noteq> None \<longrightarrow> synthesis (rendered c') \<noteq> None"
      by auto
  qed
  have 7: "\<forall>p \<in> set (timers c'). synthesis (snd p) \<noteq> None \<longrightarrow> synthesis (rendered c') \<noteq> None"
  proof
    fix p
    assume "p \<in> set (timers c')"
    then have "p \<in> set (timers (consume e c)) \<or> p \<in> set (timeouts (actions e c))"
      by (auto simp: c' perform_sel)
    with consume_subset(2) [of e c] G T r
    show "synthesis (snd p) \<noteq> None \<longrightarrow> synthesis (rendered c') \<noteq> None"
      by auto
  qed
  from 1 2 3 4 5 6 7 show ?thesis
    unfolding speech_inv_def by blast
qed

lemma speech_inv_reachable: "reachable c \<Longrightarrow> speech_inv c"
  by (induction rule: reachable.induct) (auto intro: speech_inv_mounted speech_inv_step)

subsection \<open>The requests and the timers\<close>

lemma actions_allowed: "list_all allowed_request (actions e c)"
proof (cases e)
  case (ChatSettled i clk clk2 out)
  then show ?thesis by (cases out) (simp_all split: jstext.splits)
next
  case (UploadSettled clk up)
  then show ?thesis by (cases up) (simp_all add: handler_defs)
next
  case (FilesSettled i out)
  then show ?thesis by (cases out) (simp_all add: handler_defs)
next
  case (FileInputChange files)
  then show ?thesis by (simp add: handler_defs split: option.splits)
qed (simp_all add: handler_defs handleKeyDown_def sendMessage_def Let_def)

lemma log_allowed: "reachable c \<Longrightarrow> list_all allowed_request (log c)"
proof (induction rule: reachable.induct)
  case (reach_mounted r y username clk)
  show ?case
    by (cases r; cases y) (simp_all add: mounted_def mount_def perform_def loadUploadedFiles_def)
next
  case (reach_step c e c')
  then show ?case
    by (auto simp: step_def perform_sel consume_log actions_allowed split: if_splits)
qed

lemma allowed_endpoint:
  "allowed_request a \<Longrightarrow> is_http a \<Longrightarrow>
     endpoint a \<in> {Some (js ''/chat''), Some (js ''/upload''), Some (js ''/files'')}"
  by (cases a) auto

lemma allowed_method:
  "allowed_request a \<Longrightarrow> is_http a \<Longrightarrow>
     is_get_of (js ''/files'') a \<or> is_post_to (js ''/chat'') a \<or> is_post_to (js ''/upload'') a"
  by (cases a) auto

lemma timeouts_short:
  "list_all short_timer as \<Longrightarrow> \<forall>p \<in> set (timeouts as). length (fst p) < 200"
proof (induction as)
  case Nil
  then show ?case by simp
next
  case (Cons a as)
  then show ?case by (cases a) simp_all
qed

lemma actions_short_timer: "list_all short_timer (actions e c)"
proof (cases e)
  case (ChatSettled i clk clk2 out)
  then show ?thesis by (cases out) (simp_all split: jstext.splits)
next
  case (UploadSettled clk up)
  then show ?thesis by (cases up) (simp_all add: handler_defs)
next
  case (FilesSettled i out)
  then show ?thesis by (cases out) (simp_all add: handler_defs)
next
  case (FileInputChange files)
  then show ?thesis by (simp add: handler_defs split: option.splits)
qed (simp_all add: handler_defs handleKeyDown_def sendMessage_def Let_def)

lemma timers_short: "reachable c \<Longrightarrow> \<forall>p \<in> set (timers c). length (fst p) < 200"
proof (induction rule: reachable.induct)
  case (reach_mounted r y username clk)
  show ?case
    by (cases r; cases y) (simp_all add: mounted_def mount_def perform_def loadUploadedFiles_def)
next
  case (reach_step c e c')
  from step_unfold [OF reach_step.hyps(2)]
  have c': "c' = perform (awaited e) (actions e c) (consume e c)"
    by simp
  from timeouts_short [OF actions_short_timer [of e c]] reach_step.IH
    consume_subset(2) [of e c]
  show ?case
    unfolding c' perform_sel by auto
qed

lemma speak_events:
  assumes "SynthesisSpeak u \<in> set (actions e k)"
  shows "(\<exists>m. e = SpeakClick m) \<or> (\<exists>n. e = TimerFired n \<and> u = fst (timers k ! n))"
proof (cases e)
  case (ChatSettled i clk clk2 out)
  with assms show ?thesis by (cases out) (auto split: jstext.splits if_splits)
next
  case (UploadSettled clk up)
  with assms show ?thesis by (cases up) (simp_all add: handler_defs)
next
  case (FilesSettled i out)
  with assms show ?thesis by (cases out) (simp_all add: handler_defs split: if_splits)
next
  case (FileInputChange files)
  with assms show ?thesis by (simp add: handler_defs split: option.splits if_splits)
next
  case (TimerFired n)
  with assms show ?thesis by (simp add: handler_defs split: if_splits)
next
  case (Drop files)
  with assms show ?thesis by (simp add: handler_defs split: if_splits)
next
  case MicClick
  with assms show ?thesis by (simp add: handler_defs split: if_splits)
next
  case StopSpeakingClick
  with assms show ?thesis by (simp add: handler_defs split: if_splits)
next
  case (SendClick clk)
  with assms show ?thesis by (simp add: sendMessage_def Let_def split: if_splits)
next
  case (SuggestionClick i clk)
  with assms show ?thesis by (simp add: sendMessage_def Let_def split: if_splits)
next
  case (KeyDown clk key shiftKey)
  with assms show ?thesis
    by (simp add: handleKeyDown_def sendMessage_def Let_def split: if_splits)
qed (use assms in \<open>simp_all add: handler_defs\<close>)

subsection \<open>The sample run\<close>

lemma sample_render_facts:
  "recognition sample_render \<noteq> None" "synthesis sample_render \<noteq> None"
  "\<not> isListening sample_render" "\<not> isSpeaking sample_render"
  "\<not> isLoading sample_render" "\<not> isTyping sample_render"
  "trim (inputMessage sample_render) = js ''hi''"
  by (simp_all add: sample_render_def mount_def initial_def loadUploadedFiles_def
        trim_def js_def isWhiteSpace_def)

lemma sample_send:
  "sendMessage sample_clock None sample_render
     = [AppendMessage (userMessage (js ''hi'') sample_clock), SetInputMessage [],
        SetIsLoading True, SetIsTyping True, SetShowSuggestions False,
        HttpPost (js ''/chat'') (ChatBody (js ''hi'') False) []]"
  using sample_render_facts
  by (simp add: sendMessage_def Let_def message_of_def) (simp add: js_def)

lemma sample_idle_after:
  "after [FilesSettled 0 FilesRejected, InputChange (js '' hi ''), Render] sample_mounted
     = Some sample_idle"
  by (simp add: sample_mounted_def sample_idle_def sample_render_def mounted_def mount_def
        perform_def step_def loadUploadedFiles_def drop_at_def)

lemma sample_idle_reachable: "reachable sample_idle"
  using reachable_after [OF reach_mounted sample_idle_after [unfolded sample_mounted_def]] .

lemma sample_idle_quiescent: "quiescent sample_idle"
  by (simp add: quiescent_def sample_idle_def)

lemma sample_idle_sel:
  "ui sample_idle = sample_render" "rendered sample_idle = sample_render"
  "chat_pending sample_idle = []" "timers sample_idle = []" "utterances sample_idle = 0"
  by (simp_all add: sample_idle_def)

lemma sample_sent_sel:
  "rendered sample_sent = sample_render" "chat_pending sample_sent = [sample_render]"
  "isTyping (ui sample_sent)" "timers sample_sent = []" "utterances sample_sent = 0"
  by (simp_all add: sample_sent_def perform_sel sample_send sample_idle_sel)

lemma sample_sent_twice_sel:
  "rendered sample_sent_twice = sample_render"
  "chat_pending sample_sent_twice = [sample_render, sample_render]"
  "isTyping (ui sample_sent_twice)" "timers sample_sent_twice = []"
  "utterances sample_sent_twice = 0"
  by (simp_all add: sample_sent_twice_def perform_sel sample_send sample_sent_sel)

lemma sample_replied_sel:
  "rendered sample_replied = sample_render" "chat_pending sample_replied = [sample_render]"
  "\<not> isTyping (ui sample_replied)" "timers sample_replied = [(js ''ok'', sample_render)]"
  "utterances sample_replied = 0"
  by (simp_all add: sample_replied_def perform_sel sample_sent_twice_sel)
     (simp_all add: js_def)

lemma sample_steps:
  "step (SendClick sample_clock) sample_idle = Some sample_sent"
  "step (SendClick sample_clock) sample_sent = Some sample_sent_twice"
  "step (ChatSettled 0 sample_clock sample_clock (ChatResolved (JStr (js ''ok'')) None))
     sample_sent_twice = Some sample_replied"
  "step (TimerFired 0) sample_replied = Some sample_spoken"
proof -
  show "step (SendClick sample_clock) sample_idle = Some sample_sent"
    by (simp add: step_def sample_sent_def sample_idle_sel)
  show "step (SendClick sample_clock) sample_sent = Some sample_sent_twice"
    by (simp add: step_def sample_sent_twice_def sample_sent_sel)
  show "step (ChatSettled 0 sample_clock sample_clock (ChatResolved (JStr (js ''ok'')) None))
     sample_sent_twice = Some sample_replied"
    by (simp add: step_def sample_replied_def sample_sent_twice_sel drop_at_def)
  show "step (TimerFired 0) sample_replied = Some sample_spoken"
    by (simp add: step_def sample_spoken_def sample_replied_sel drop_at_def)
qed

lemma sample_reachable:
  "reachable sample_sent" "reachable sample_sent_twice" "reachable sample_replied"
  "reachable sample_spoken"
proof -
  show 1: "reachable sample_sent"
    using reach_step [OF sample_idle_reachable sample_steps(1)] .
  show 2: "reachable sample_sent_twice"
    using reach_step [OF 1 sample_steps(2)] .
  show 3: "reachable sample_replied"
    using reach_step [OF 2 sample_steps(3)] .
  show "reachable sample_spoken"
    using reach_step [OF 3 sample_steps(4)] .
qed

lemma sample_spoken_sel:
  "log sample_spoken = log sample_replied @ [SynthesisCancel, SynthesisSpeak (js ''ok'')]"
  "utterances sample_spoken = 1" "timers sample_spoken = []"
  using sample_render_facts
  by (simp_all add: sample_spoken_def perform_sel speakResponse_def sample_replied_sel)

lemma characters_pairs:
  "is_high_surrogate a \<Longrightarrow> is_low_surrogate b \<Longrightarrow>
     characters (concat (replicate n [a, b])) = n"
  by (induction n) simp_all

lemma length_pairs: "length (concat (replicate n [a, b])) = 2 * n"
  by (induction n) simp_all

lemma hundred_waves_length: "length hundred_waves = 200" "characters hundred_waves = 100"
  by (simp_all add: hundred_waves_def length_pairs characters_pairs
        is_high_surrogate_def is_low_surrogate_def)

section \<open>Sending a message\<close>

text \<open>
  Claim C4. In every state whose trimmed input is not empty and in which \<open>isLoading\<close> is
  false, \<open>sendMessage\<close> performs its state updates and then, as its last action, the
  POST to the chat endpoint: \<open>isLoading\<close> is set to true before the request, and with
  it \<open>isTyping\<close> is true, the input is cleared and the suggestions are hidden, both at
  the moment of the request and in the state the call leaves. This holds for every
  argument of \<open>sendMessage\<close>, the click on send (no argument) included.
\<close>

theorem sendMessage_sets_loading_before_request:
  fixes s :: "'v state"
  assumes "trim (inputMessage s) \<noteq> []" and "\<not> isLoading s"
  shows "sendMessage clk messageText s \<noteq> []
    \<and> last (sendMessage clk messageText s)
        = HttpPost (js ''/chat'') (ChatBody (message_of messageText s) False) []
    \<and> SetIsLoading True \<in> set (butlast (sendMessage clk messageText s))
    \<and> requests (butlast (sendMessage clk messageText s)) = []
    \<and> isLoading (run (butlast (sendMessage clk messageText s)) s)
    \<and> isTyping (run (butlast (sendMessage clk messageText s)) s)
    \<and> inputMessage (run (butlast (sendMessage clk messageText s)) s) = []
    \<and> \<not> showSuggestions (run (butlast (sendMessage clk messageText s)) s)
    \<and> isLoading (run (sendMessage clk messageText s) s)
    \<and> isTyping (run (sendMessage clk messageText s) s)
    \<and> inputMessage (run (sendMessage clk messageText s) s) = []
    \<and> \<not> showSuggestions (run (sendMessage clk messageText s) s)"
  using assms message_nonempty [OF assms(1), of messageText]
  by (simp add: sendMessage_def Let_def requests_def)

theorem sendMessage_sets_loading_witness:
  "trim (inputMessage typed_hi) \<noteq> [] \<and> \<not> isLoading typed_hi
   \<and> last (sendMessage sample_clock None typed_hi)
        = HttpPost (js ''/chat'') (ChatBody (js ''hi'') False) []
   \<and> isLoading (run (butlast (sendMessage sample_clock None typed_hi)) typed_hi)
   \<and> isTyping (run (sendMessage sample_clock None typed_hi) typed_hi)
   \<and> inputMessage (run (sendMessage sample_clock None typed_hi) typed_hi) = []
   \<and> \<not> showSuggestions (run (sendMessage sample_clock None typed_hi) typed_hi)"
proof -
  have m: "message_of None typed_hi = js ''hi''"
    by (simp add: message_of_def typed_hi_trim)
  show ?thesis
    using sendMessage_sets_loading_before_request
            [OF typed_hi_nonempty typed_hi_idle, of sample_clock None]
          typed_hi_nonempty typed_hi_idle m
    by simp
qed

text \<open>
  Claim C1, as stated, fails: the claim speaks of every call of \<open>sendMessage\<close>, and a
  call with an explicit argument posts the argument. With
  \<^verbatim>\<open> hi \<close> typed into the input and no request in flight, a click on the suggestion
  \<^verbatim>\<open>Tell me a joke\<close> posts the suggestion and not the trimmed input.
\<close>

theorem explicit_argument_counterexample:
  "trim (inputMessage typed_hi) = js ''hi'' \<and> \<not> isLoading typed_hi
   \<and> suggestions ! 3 = js ''Tell me a joke''
   \<and> requests (sendMessage sample_clock (Some (suggestions ! 3)) typed_hi)
       = [HttpPost (js ''/chat'') (ChatBody (js ''Tell me a joke'') False) []]
   \<and> js ''Tell me a joke'' \<noteq> trim (inputMessage typed_hi)"
proof -
  have j: "js ''Tell me a joke'' \<noteq> []" "js ''Tell me a joke'' \<noteq> js ''hi''"
    by (simp_all add: js_def)
  have g: "suggestions ! 3 = js ''Tell me a joke''"
    by (simp add: suggestions_def)
  show ?thesis
    using j typed_hi_idle
    by (simp add: g typed_hi_trim sendMessage_def Let_def message_of_def requests_def)
qed

text \<open>
  Claim C1, amended. In every state whose trimmed input is not empty and in which no
  request is in flight, \<open>sendMessage\<close> called without an explicit message (or with an
  empty one) posts exactly the trimmed input, with \<open>stream: false\<close>, to the chat
  endpoint, and nothing else; called with an explicit, non-empty message it posts that
  message instead. When the request succeeds with a textual reply, the continuation
  appends exactly one assistant message, whose content is the reply and whose duration
  is the duration field of the response (\<open>None\<close> when the response has none), in
  whatever state the component is then, and makes no further request. A whole call
  therefore appends the user's message and that one assistant message.
\<close>

theorem sendMessage_posts_message_and_appends_reply:
  fixes s s' r :: "'v state"
  assumes "trim (inputMessage s) \<noteq> []" and "\<not> isLoading s"
  shows "(messageText = None \<or> messageText = Some []
            \<longrightarrow> requests (sendMessage clk messageText s)
                 = [HttpPost (js ''/chat'') (ChatBody (trim (inputMessage s)) False) []])
    \<and> (\<forall>t. messageText = Some t \<and> t \<noteq> []
            \<longrightarrow> requests (sendMessage clk messageText s)
                 = [HttpPost (js ''/chat'') (ChatBody t False) []])
    \<and> messages (run (sendMessage_settle ck ck' r (ChatResolved (JStr reply) d)) s')
        = messages s' @ [\<lparr> id_msg = now ck + 1, role = Assistant, content = JStr reply,
                           timestamp = iso ck, duration = d, error = False \<rparr>]
    \<and> requests (sendMessage_settle ck ck' r (ChatResolved (JStr reply) d)) = []
    \<and> messages (run (sendMessage_call clk messageText s ck ck'
                       (ChatResolved (JStr reply) d)) s)
        = messages s @ [userMessage (message_of messageText s) clk,
                        \<lparr> id_msg = now ck + 1, role = Assistant, content = JStr reply,
                          timestamp = iso ck, duration = d, error = False \<rparr>]"
  using assms message_nonempty [OF assms(1), of messageText]
  by (auto simp: sendMessage_def sendMessage_call_def Let_def requests_def message_of_def
        assistantMessage_def run_append)

theorem sendMessage_posts_message_witness:
  "trim (inputMessage typed_hi) \<noteq> [] \<and> \<not> isLoading typed_hi
   \<and> requests (sendMessage sample_clock None typed_hi)
       = [HttpPost (js ''/chat'') (ChatBody (js ''hi'') False) []]
   \<and> messages (run (sendMessage_call sample_clock None typed_hi sample_clock sample_clock
                      (ChatResolved (JStr (js ''hello'')) (Some 3))) typed_hi)
       = [userMessage (js ''hi'') sample_clock,
          \<lparr> id_msg = now sample_clock + 1, role = Assistant, content = JStr (js ''hello''),
            timestamp = iso sample_clock, duration = Some 3, error = False \<rparr>]"
proof -
  have m: "message_of None typed_hi = js ''hi''" "messages typed_hi = []"
    by (simp_all add: message_of_def typed_hi_trim) (simp add: typed_hi_def initial_def)
  note inst = sendMessage_posts_message_and_appends_reply
    [OF typed_hi_nonempty typed_hi_idle,
     where messageText = None and clk = sample_clock and ck = sample_clock
       and ck' = sample_clock and reply = "js ''hello''" and d = "Some 3"
       and s' = typed_hi and r = typed_hi]
  from inst have 1: "requests (sendMessage sample_clock None typed_hi)
       = [HttpPost (js ''/chat'') (ChatBody (trim (inputMessage typed_hi)) False) []]"
    by blast
  from inst have 2: "messages (run (sendMessage_call sample_clock None typed_hi sample_clock
        sample_clock (ChatResolved (JStr (js ''hello'')) (Some 3))) typed_hi)
       = messages typed_hi @ [userMessage (message_of None typed_hi) sample_clock,
          \<lparr> id_msg = now sample_clock + 1, role = Assistant, content = JStr (js ''hello''),
            timestamp = iso sample_clock, duration = Some 3, error = False \<rparr>]"
    by blast
  from 1 2 m typed_hi_nonempty typed_hi_idle show ?thesis
    by (simp add: typed_hi_trim)
qed

text \<open>
  Claim C8. When the trimmed input is empty and no explicit message is given, or when
  \<open>isLoading\<close> is true, \<open>sendMessage\<close> performs no action at all: no request, no change
  of the state, nothing put in flight (a click on send against such a render leaves the
  configuration as it is). \<open>handleFileUpload\<close> with \<open>null\<close> or with an empty
  list of files performs no action either.
\<close>

theorem guards_make_noop:
  fixes s :: "'v state" and c :: "'v config"
  shows "((trim (inputMessage s) = [] \<and> messageText = None) \<or> isLoading s
           \<longrightarrow> sendMessage clk messageText s = []
               \<and> requests (sendMessage clk messageText s) = []
               \<and> run (sendMessage clk messageText s) s = s
               \<and> sendMessage_call clk messageText s ck ck' out = [])
    \<and> ((trim (inputMessage (rendered c)) = [] \<or> isLoading (rendered c))
           \<longrightarrow> step (SendClick clk) c = Some c)
    \<and> (files = None \<or> files = Some []
           \<longrightarrow> (handleFileUpload files :: 'v action list) = []
               \<and> requests (handleFileUpload files :: 'v action list) = []
               \<and> run (handleFileUpload files) s = s
               \<and> (handleFileUpload_call files clk up fout :: 'v action list) = [])"
  by (auto simp: sendMessage_def sendMessage_call_def message_of_def Let_def requests_def
        handleFileUpload_def handleFileUpload_call_def perform_def step_def)

theorem guards_make_noop_witness:
  "trim (inputMessage typed_blank) = []
   \<and> sendMessage sample_clock None typed_blank = []
   \<and> run (sendMessage sample_clock None typed_blank) typed_blank = typed_blank
   \<and> (handleFileUpload (Some []) :: nat action list) = []"
proof -
  have h: "trim (inputMessage typed_blank) = []"
    by (simp add: typed_blank_def trim_def js_def isWhiteSpace_def)
  note inst = guards_make_noop
    [where s = typed_blank and messageText = None and clk = sample_clock
       and files = "Some []"]
  from inst h have 1: "sendMessage sample_clock None typed_blank = []
      \<and> run (sendMessage sample_clock None typed_blank) typed_blank = typed_blank"
    by blast
  from inst have 2: "(handleFileUpload (Some []) :: nat action list) = []"
    by blast
  from 1 2 h show ?thesis
    by blast
qed

text \<open>
  Claim C9, as stated, fails: the test is on \<open>.length\<close>, which counts UTF-16 code
  units and not characters. A reply of one hundred waving hands has a hundred
  characters, fewer than 200, and 200 code units: it is displayed, and no timer is set.
\<close>

theorem characters_counterexample:
  "characters hundred_waves = 100 \<and> characters hundred_waves < 200
   \<and> length hundred_waves = 200
   \<and> timeouts (sendMessage_settle sample_clock sample_clock sample_render
                (ChatResolved (JStr hundred_waves) None)) = []
   \<and> messages (run (sendMessage_settle sample_clock sample_clock sample_render
                      (ChatResolved (JStr hundred_waves) None)) sample_render)
       = messages sample_render @ [assistantMessage (JStr hundred_waves) None sample_clock]"
  by (simp add: hundred_waves_length)

text \<open>
  Claim C9, amended. After a successful chat reply with text \<open>t\<close>, the continuation
  sets the timer for automatic speech if and only if \<open>t\<close> has fewer than 200 UTF-16
  code units; the timer, when set, is the one of 500 ms whose callback is
  \<open>speakResponse\<close> on \<open>t\<close> in the render that sent the message. The continuation
  itself never calls the synthesiser, and the reply is appended as a message whatever
  its length. In the component, the continuation adds exactly that timer to those in
  flight; a timer that fires hands its text to the synthesiser when its render has a
  synthesiser and is not speaking, and does nothing otherwise; every timer in a
  reachable configuration holds a text below 200 code units, and the only events that
  speak are the click on a message's speaker and the timer, so a reply of 200 code units
  or more is displayed and never spoken automatically.
\<close>

theorem auto_speech_iff_short:
  fixes s r :: "'v state" and c c' k k' h :: "'v config"
  shows "((\<exists>d' t' r'. SetTimeout d' t' r'
              \<in> set (sendMessage_settle clk clk' r (ChatResolved (JStr t) d)))
           \<longleftrightarrow> length t < 200)
    \<and> timeouts (sendMessage_settle clk clk' r (ChatResolved (JStr t) d))
        = (if length t < 200 then [(t, r)] else [])
    \<and> (length t < 200 \<longrightarrow>
          SetTimeout 500 t r \<in> set (sendMessage_settle clk clk' r (ChatResolved (JStr t) d)))
    \<and> filter is_speak (sendMessage_settle clk clk' r (ChatResolved (JStr t) d)) = []
    \<and> messages (run (sendMessage_settle clk clk' r (ChatResolved (JStr t) d)) s)
        = messages s @ [assistantMessage (JStr t) d clk]
    \<and> (step (ChatSettled i clk clk' (ChatResolved (JStr t) d)) c = Some c'
          \<longrightarrow> timers c' = timers c @ (if length t < 200 then [(t, chat_pending c ! i)] else [])
              \<and> utterances c' = utterances c
              \<and> messages (ui c') = messages (ui c) @ [assistantMessage (JStr t) d clk])
    \<and> (step (TimerFired j) k = Some k'
          \<longrightarrow> log k' = log k
                 @ (if synthesis (snd (timers k ! j)) \<noteq> None \<and> \<not> isSpeaking (snd (timers k ! j))
                    then [SynthesisCancel, SynthesisSpeak (fst (timers k ! j))] else [])
              \<and> utterances k'
                  = utterances k
                    + (if synthesis (snd (timers k ! j)) \<noteq> None
                          \<and> \<not> isSpeaking (snd (timers k ! j)) then 1 else 0)
              \<and> timers k' = drop_at j (timers k))
    \<and> (reachable h \<longrightarrow> (\<forall>p \<in> set (timers h). length (fst p) < 200))
    \<and> (reachable h \<and> enabled e h \<and> SynthesisSpeak u \<in> set (actions e h)
          \<longrightarrow> (\<exists>m. e = SpeakClick m) \<or> ((\<exists>n. e = TimerFired n) \<and> length u < 200))"
proof -
  have 1: "step (ChatSettled i clk clk' (ChatResolved (JStr t) d)) c = Some c'
      \<Longrightarrow> timers c' = timers c @ (if length t < 200 then [(t, chat_pending c ! i)] else [])
          \<and> utterances c' = utterances c
          \<and> messages (ui c') = messages (ui c) @ [assistantMessage (JStr t) d clk]"
    by (auto dest!: step_unfold simp: perform_sel)
  have 2: "step (TimerFired j) k = Some k'
      \<Longrightarrow> log k' = log k
                 @ (if synthesis (snd (timers k ! j)) \<noteq> None \<and> \<not> isSpeaking (snd (timers k ! j))
                    then [SynthesisCancel, SynthesisSpeak (fst (timers k ! j))] else [])
          \<and> utterances k'
              = utterances k
                + (if synthesis (snd (timers k ! j)) \<noteq> None
                      \<and> \<not> isSpeaking (snd (timers k ! j)) then 1 else 0)
          \<and> timers k' = drop_at j (timers k)"
    by (auto dest!: step_unfold simp: perform_sel speakResponse_def)
  have 3: "reachable h \<Longrightarrow> \<forall>p \<in> set (timers h). length (fst p) < 200"
    by (rule timers_short)
  have 4: "(\<exists>m. e = SpeakClick m) \<or> ((\<exists>n. e = TimerFired n) \<and> length u < 200)"
    if "reachable h" and "enabled e h" and "SynthesisSpeak u \<in> set (actions e h)"
  proof -
    from speak_events [OF that(3)] show ?thesis
    proof
      assume "\<exists>m. e = SpeakClick m"
      then show ?thesis by simp
    next
      assume "\<exists>n. e = TimerFired n \<and> u = fst (timers h ! n)"
      then obtain n where n: "e = TimerFired n" "u = fst (timers h ! n)"
        by blast
      with that(2) have "timers h ! n \<in> set (timers h)"
        by simp
      with 3 [OF that(1)] n show ?thesis
        by simp
    qed
  qed
  have 5: "((\<exists>d' t' r'. SetTimeout d' t' r'
              \<in> set (sendMessage_settle clk clk' r (ChatResolved (JStr t) d)))
           \<longleftrightarrow> length t < 200)
    \<and> timeouts (sendMessage_settle clk clk' r (ChatResolved (JStr t) d))
        = (if length t < 200 then [(t, r)] else [])
    \<and> (length t < 200 \<longrightarrow>
          SetTimeout 500 t r \<in> set (sendMessage_settle clk clk' r (ChatResolved (JStr t) d)))
    \<and> filter is_speak (sendMessage_settle clk clk' r (ChatResolved (JStr t) d)) = []
    \<and> messages (run (sendMessage_settle clk clk' r (ChatResolved (JStr t) d)) s)
        = messages s @ [assistantMessage (JStr t) d clk]"
    by (auto simp: assistantMessage_def)
  from 1 2 3 4 5 show ?thesis
    by blast
qed

theorem auto_speech_witness:
  "step (ChatSettled 0 sample_clock sample_clock (ChatResolved (JStr (js ''ok'')) None))
     sample_sent_twice = Some sample_replied
   \<and> length (js ''ok'') < 200
   \<and> timers sample_replied = [(js ''ok'', sample_render)]
   \<and> step (TimerFired 0) sample_replied = Some sample_spoken
   \<and> synthesis sample_render \<noteq> None \<and> \<not> isSpeaking sample_render
   \<and> log sample_spoken = log sample_replied @ [SynthesisCancel, SynthesisSpeak (js ''ok'')]
   \<and> utterances sample_spoken = 1
   \<and> reachable sample_replied \<and> enabled (TimerFired 0) sample_replied
   \<and> SynthesisSpeak (js ''ok'') \<in> set (actions (TimerFired 0) sample_replied)
   \<and> \<not> length (replicate 200 (97 :: 16 word)) < 200
   \<and> timeouts (sendMessage_settle sample_clock sample_clock sample_render
                (ChatResolved (JStr (replicate 200 97)) None)) = []"
proof -
  have h: "length (js ''ok'') < 200"
    by (simp add: js_def)
  have g: "\<not> length (replicate 200 (97 :: 16 word)) < 200"
    by simp
  note a = auto_speech_iff_short
    [where t = "js ''ok''" and clk = sample_clock and clk' = sample_clock and d = None
       and i = 0 and c = sample_sent_twice and c' = sample_replied
       and j = 0 and k = sample_replied and k' = sample_spoken
       and h = sample_replied and e = "TimerFired 0" and u = "js ''ok''"]
  note b = auto_speech_iff_short
    [where t = "replicate 200 97" and r = sample_render and clk = sample_clock
       and clk' = sample_clock and d = None]
  from a sample_steps(3) h
  have 1: "timers sample_replied
      = timers sample_sent_twice @ [(js ''ok'', chat_pending sample_sent_twice ! 0)]"
    by simp
  from a sample_steps(4)
  have 2: "log sample_spoken = log sample_replied
      @ (if synthesis (snd (timers sample_replied ! 0)) \<noteq> None
            \<and> \<not> isSpeaking (snd (timers sample_replied ! 0))
         then [SynthesisCancel, SynthesisSpeak (fst (timers sample_replied ! 0))] else [])"
    by blast
  from a sample_steps(4)
  have 3: "utterances sample_spoken = utterances sample_replied
      + (if synthesis (snd (timers sample_replied ! 0)) \<noteq> None
            \<and> \<not> isSpeaking (snd (timers sample_replied ! 0)) then 1 else 0)"
    by blast
  from b g have 4: "timeouts (sendMessage_settle sample_clock sample_clock sample_render
                (ChatResolved (JStr (replicate 200 97)) None)) = []"
    by simp
  have 5: "enabled (TimerFired 0) sample_replied"
    "SynthesisSpeak (js ''ok'') \<in> set (actions (TimerFired 0) sample_replied)"
    using sample_render_facts(2,4) by (simp_all add: sample_replied_sel speakResponse_def)
  from a sample_reachable(3) 5
  have 6: "(\<exists>m. (TimerFired 0 :: nat event) = SpeakClick m)
      \<or> ((\<exists>n. (TimerFired 0 :: nat event) = TimerFired n) \<and> length (js ''ok'') < 200)"
    by blast
  from 1 2 3 4 5 6 h g sample_steps(3,4) sample_render_facts(2,4) sample_reachable(3)
  show ?thesis
    by (simp add: sample_sent_twice_sel sample_replied_sel)
qed

text \<open>
  Claim C10. When the chat request fails, the continuation of \<open>sendMessage\<close> appends
  exactly one assistant message, flagged as an error, with the content
  \<^verbatim>\<open>Sorry, something went wrong. Please try again!\<close>, and resets \<open>isLoading\<close> and
  \<open>isTyping\<close>; when the upload fails, the continuation of \<open>handleFileUpload\<close> appends
  exactly one assistant message, flagged as an error, with the content
  \<^verbatim>\<open>File upload failed. Please try again.\<close>, and resets \<open>isUploading\<close>. In both
  cases the messages stored before are kept, in order, in front of the new one, and no
  request is made. A whole call that fails leaves the same: the messages stored before,
  then what the call appended.
\<close>

theorem failure_appends_one_error_message:
  fixes s r :: "'v state"
  shows "messages (run (sendMessage_settle clk clk' r ChatRejected) s)
      = messages s @ [\<lparr> id_msg = now clk + 1, role = Assistant,
           content = JStr (js ''Sorry, something went wrong. Please try again!''),
           timestamp = iso clk, duration = None, error = True \<rparr>]
    \<and> \<not> isLoading (run (sendMessage_settle clk clk' r ChatRejected) s)
    \<and> \<not> isTyping (run (sendMessage_settle clk clk' r ChatRejected) s)
    \<and> requests (sendMessage_settle clk clk' r ChatRejected) = []
    \<and> messages (run (handleFileUpload_settle clk UploadRejected) s)
      = messages s @ [\<lparr> id_msg = now clk, role = Assistant,
           content = JStr (js ''File upload failed. Please try again.''),
           timestamp = iso clk, duration = None, error = True \<rparr>]
    \<and> \<not> isUploading (run (handleFileUpload_settle clk UploadRejected) s)
    \<and> requests (handleFileUpload_settle clk UploadRejected :: 'v action list) = []
    \<and> (sendMessage ck messageText s \<noteq> [] \<longrightarrow>
         messages (run (sendMessage_call ck messageText s clk clk' ChatRejected) s)
           = messages s @ [userMessage (message_of messageText s) ck, chatErrorMessage clk]
         \<and> \<not> isLoading (run (sendMessage_call ck messageText s clk clk' ChatRejected) s)
         \<and> \<not> isTyping (run (sendMessage_call ck messageText s clk clk' ChatRejected) s))
    \<and> ((handleFileUpload files :: 'v action list) \<noteq> [] \<longrightarrow>
         messages (run (handleFileUpload_call files ck UploadRejected fout) s)
           = messages s @ [uploadErrorMessage ck]
         \<and> \<not> isUploading (run (handleFileUpload_call files ck UploadRejected fout) s))"
  by (auto simp: chatErrorMessage_def uploadErrorMessage_def requests_def sendMessage_call_def
       sendMessage_def Let_def handleFileUpload_call_def handleFileUpload_def split: option.splits)

theorem failure_witness:
  "sendMessage sample_clock None typed_hi \<noteq> []
   \<and> messages (run (sendMessage_call sample_clock None typed_hi sample_clock sample_clock
                      ChatRejected) typed_hi)
       = [userMessage (js ''hi'') sample_clock, chatErrorMessage sample_clock]
   \<and> (handleFileUpload (Some [File (js ''notes.txt'')]) :: nat action list) \<noteq> []
   \<and> messages (run (handleFileUpload_call (Some [File (js ''notes.txt'')]) sample_clock
                      UploadRejected FilesRejected) typed_hi)
       = [uploadErrorMessage sample_clock]"
proof -
  have m: "message_of None typed_hi = js ''hi''" "messages typed_hi = []"
    by (simp_all add: message_of_def typed_hi_trim) (simp add: typed_hi_def initial_def)
  have n: "sendMessage sample_clock None typed_hi \<noteq> []"
    using typed_hi_nonempty typed_hi_idle
    by (simp add: sendMessage_def Let_def message_of_def)
  have u: "(handleFileUpload (Some [File (js ''notes.txt'')]) :: nat action list) \<noteq> []"
    by (simp add: handleFileUpload_def)
  note inst = failure_appends_one_error_message
    [where s = typed_hi and r = typed_hi and clk = sample_clock and clk' = sample_clock
       and ck = sample_clock and messageText = None
       and files = "Some [File (js ''notes.txt'')]" and fout = FilesRejected]
  from inst n have 1:
    "messages (run (sendMessage_call sample_clock None typed_hi sample_clock sample_clock
                      ChatRejected) typed_hi)
       = messages typed_hi @ [userMessage (message_of None typed_hi) sample_clock,
                              chatErrorMessage sample_clock]"
    by blast
  from inst u have 2:
    "messages (run (handleFileUpload_call (Some [File (js ''notes.txt'')]) sample_clock
                      UploadRejected FilesRejected) typed_hi)
       = messages typed_hi @ [uploadErrorMessage sample_clock]"
    by blast
  from 1 2 m n u show ?thesis
    by simp
qed

section \<open>File upload and drag and drop\<close>

text \<open>
  Claim C3, as stated, fails: \<open>uploadedFiles\<close> is not taken from what the upload
  returns. The upload succeeds and its response lists the files 7 and 8, the reload of
  the file list fails, and \<open>uploadedFiles\<close> keeps the list it held before, while the
  confirmation is appended and no error is shown.
\<close>

theorem stale_file_list_counterexample:
  "uploadedFiles (run (handleFileUpload_call (Some [File (js ''notes.txt'')]) sample_clock
        (UploadResolved (JStr (js ''1 file uploaded'')) (Some [7, 8])) FilesRejected)
        (typed_hi\<lparr>uploadedFiles := [5]\<rparr>)) = [5]
   \<and> [5] \<noteq> [7, 8 :: nat]
   \<and> messages (run (handleFileUpload_call (Some [File (js ''notes.txt'')]) sample_clock
        (UploadResolved (JStr (js ''1 file uploaded'')) (Some [7, 8])) FilesRejected)
        (typed_hi\<lparr>uploadedFiles := [5]\<rparr>))
      = [successMessage (JStr (js ''1 file uploaded'')) sample_clock]"
  by (simp add: handleFileUpload_call_def handleFileUpload_def handleFileUpload_finish_def
        loadUploadedFiles_def typed_hi_def initial_def)

text \<open>
  Claim C3, amended. For every non-empty list of files, a call of \<open>handleFileUpload\<close>
  whose upload succeeds with confirmation \<open>m\<close> appends exactly one assistant message,
  whose content is \<open>m\<close> followed by \<^verbatim>\<open>. Kya puchna hai?\<close>, and then reloads the
  file list with a GET of \<^verbatim>\<open>/files\<close>; the file list of the upload response is not
  read. Afterwards \<open>uploadedFiles\<close> equals the list that the reload returned, the
  empty list when the reload's response has no list, and its former value when the
  reload failed; \<open>isUploading\<close> is false again. The same holds of the two
  continuations in whatever state they run.
\<close>

theorem upload_success_confirms_and_reloads:
  fixes s s' s'' :: "'v state"
  assumes "files = Some fs" and "fs \<noteq> []"
  shows "handleFileUpload_call files clk (UploadResolved m fl) out
      = [SetIsUploading True,
         HttpPost (js ''/upload'') (FormData (map (\<lambda>f. (js ''files'', f)) fs))
           [(js ''Content-Type'', js ''multipart/form-data'')],
         AppendMessage \<lparr> id_msg = now clk, role = Assistant,
           content = JStr (toString m @ js ''. Kya puchna hai?''),
           timestamp = iso clk, duration = None, error = False \<rparr>,
         HttpGet (js ''/files'')]
        @ (case out of
             FilesResolved None \<Rightarrow> [SetUploadedFiles []]
           | FilesResolved (Some l) \<Rightarrow> [SetUploadedFiles l]
           | FilesRejected \<Rightarrow> [ConsoleError])
        @ [SetIsUploading False]
    \<and> messages (run (handleFileUpload_call files clk (UploadResolved m fl) out) s)
        = messages s @ [\<lparr> id_msg = now clk, role = Assistant,
             content = JStr (toString m @ js ''. Kya puchna hai?''),
             timestamp = iso clk, duration = None, error = False \<rparr>]
    \<and> uploadedFiles (run (handleFileUpload_call files clk (UploadResolved m fl) out) s)
        = (case out of
             FilesResolved None \<Rightarrow> []
           | FilesResolved (Some l) \<Rightarrow> l
           | FilesRejected \<Rightarrow> uploadedFiles s)
    \<and> \<not> isUploading (run (handleFileUpload_call files clk (UploadResolved m fl) out) s)
    \<and> messages (run (handleFileUpload_settle clk (UploadResolved m fl)) s')
        = messages s' @ [\<lparr> id_msg = now clk, role = Assistant,
             content = JStr (toString m @ js ''. Kya puchna hai?''),
             timestamp = iso clk, duration = None, error = False \<rparr>]
    \<and> requests (handleFileUpload_settle clk (UploadResolved m fl) :: 'v action list)
        = [HttpGet (js ''/files'')]
    \<and> uploadedFiles (run (handleFileUpload_finish out) s'')
        = (case out of
             FilesResolved None \<Rightarrow> []
           | FilesResolved (Some l) \<Rightarrow> l
           | FilesRejected \<Rightarrow> uploadedFiles s'')
    \<and> messages (run (handleFileUpload_finish out) s'') = messages s''"
  using assms
  by (cases out)
     (simp_all add: handleFileUpload_call_def handleFileUpload_def handleFileUpload_finish_def
        successMessage_def loadUploadedFiles_def requests_def split: option.splits)

theorem upload_success_witness:
  "messages (run (handleFileUpload_call (Some [File (js ''notes.txt'')]) sample_clock
        (UploadResolved (JStr (js ''1 file uploaded'')) None) (FilesResolved (Some [7, 8])))
        typed_hi)
     = [\<lparr> id_msg = now sample_clock, role = Assistant,
          content = JStr (js ''1 file uploaded. Kya puchna hai?''),
          timestamp = iso sample_clock, duration = None, error = False \<rparr>]
   \<and> uploadedFiles (run (handleFileUpload_call (Some [File (js ''notes.txt'')]) sample_clock
        (UploadResolved (JStr (js ''1 file uploaded'')) None) (FilesResolved (Some [7, 8])))
        typed_hi)
     = [7, 8]"
proof -
  have m: "messages typed_hi = []"
    by (simp add: typed_hi_def initial_def)
  have n: "[File (js ''notes.txt'')] \<noteq> []"
    by simp
  note inst = upload_success_confirms_and_reloads
    [OF refl n, where clk = sample_clock and m = "JStr (js ''1 file uploaded'')"
       and fl = None and out = "FilesResolved (Some [7, 8])"
       and s = typed_hi and s' = typed_hi and s'' = typed_hi]
  from inst m show ?thesis
    by (simp add: js_def)
qed

text \<open>
  Claim C6. \<open>handleDragOver\<close> changes the state only by setting \<open>isDragging\<close>,
  \<open>handleDragLeave\<close> only by clearing it, and neither makes a request. \<open>handleDrop\<close>
  clears \<open>isDragging\<close> and then calls \<open>handleFileUpload\<close> on the dropped files: it
  leaves \<open>messages\<close>, \<open>inputMessage\<close>, \<open>isLoading\<close>, \<open>isTyping\<close> and \<open>uploadedFiles\<close>
  as they were, and its only request is the upload of the dropped files, made when
  there is at least one (together with the flag \<open>isUploading\<close> of that upload).
\<close>

theorem drag_handlers_frame:
  fixes s :: "'v state"
  shows "run handleDragOver s = s\<lparr>isDragging := True\<rparr>
    \<and> run handleDragLeave s = s\<lparr>isDragging := False\<rparr>
    \<and> requests (handleDragOver :: 'v action list) = []
    \<and> requests (handleDragLeave :: 'v action list) = []
    \<and> run (handleDrop files) s = run (handleFileUpload (Some files)) (s\<lparr>isDragging := False\<rparr>)
    \<and> run (handleDrop files) s
        = (if files = [] then s\<lparr>isDragging := False\<rparr>
           else s\<lparr>isDragging := False, isUploading := True\<rparr>)
    \<and> \<not> isDragging (run (handleDrop files) s)
    \<and> messages (run (handleDrop files) s) = messages s
    \<and> inputMessage (run (handleDrop files) s) = inputMessage s
    \<and> isLoading (run (handleDrop files) s) = isLoading s
    \<and> isTyping (run (handleDrop files) s) = isTyping s
    \<and> uploadedFiles (run (handleDrop files) s) = uploadedFiles s
    \<and> requests (handleDrop files :: 'v action list)
        = (if files = [] then []
           else [HttpPost (js ''/upload'') (FormData (map (\<lambda>f. (js ''files'', f)) files))
                   [(js ''Content-Type'', js ''multipart/form-data'')]])"
  by (simp add: handleDragOver_def handleDragLeave_def handleDrop_def handleFileUpload_def
        requests_def)

theorem drag_handlers_witness:
  "run handleDragOver typed_hi = typed_hi\<lparr>isDragging := True\<rparr>
   \<and> run (handleDrop [File (js ''notes.txt'')]) typed_hi
       = typed_hi\<lparr>isDragging := False, isUploading := True\<rparr>
   \<and> requests (handleDrop [File (js ''notes.txt'')] :: nat action list)
       = [HttpPost (js ''/upload'') (FormData [(js ''files'', File (js ''notes.txt''))])
            [(js ''Content-Type'', js ''multipart/form-data'')]]
   \<and> run (handleDrop []) typed_hi = typed_hi\<lparr>isDragging := False\<rparr>"
proof -
  note a = drag_handlers_frame [where s = typed_hi and files = "[File (js ''notes.txt'')]"]
  note b = drag_handlers_frame [where s = typed_hi and files = "[]"]
  from a have 1: "run handleDragOver typed_hi = typed_hi\<lparr>isDragging := True\<rparr>"
    by blast
  from a have 2: "run (handleDrop [File (js ''notes.txt'')]) typed_hi
      = (if [File (js ''notes.txt'')] = [] then typed_hi\<lparr>isDragging := False\<rparr>
         else typed_hi\<lparr>isDragging := False, isUploading := True\<rparr>)"
    by blast
  from a have 3: "requests (handleDrop [File (js ''notes.txt'')] :: nat action list)
      = (if [File (js ''notes.txt'')] = [] then []
         else [HttpPost (js ''/upload'')
                 (FormData (map (\<lambda>f. (js ''files'', f)) [File (js ''notes.txt'')]))
                 [(js ''Content-Type'', js ''multipart/form-data'')]])"
    by blast
  from b have 4: "run (handleDrop []) typed_hi
      = (if ([] :: jsfile list) = [] then typed_hi\<lparr>isDragging := False\<rparr>
         else typed_hi\<lparr>isDragging := False, isUploading := True\<rparr>)"
    by blast
  from 1 2 3 4 show ?thesis
    by simp
qed

section \<open>Voice input and output\<close>

text \<open>
  Claim C5. \<open>startListening\<close> takes \<open>isListening\<close> from false to true when a
  recognition instance exists, and does nothing when the component is already listening
  or has no instance. \<open>stopListening\<close> leaves \<open>isListening\<close> false, in every state
  with an instance and so in every state the component can reach, and does nothing when
  the component is not listening. \<open>stopSpeaking\<close> leaves \<open>isSpeaking\<close> false, in
  every state with a synthesiser and so in every state the component can reach (also
  when the handler is the one of an older render), and a second call leaves the state
  the first call left.
\<close>

theorem voice_toggles_guarded:
  fixes s :: "'v state" and c :: "'v config"
  shows "(recognition s \<noteq> None \<and> \<not> isListening s
            \<longrightarrow> startListening s = [SetIsListening True, RecognitionStart]
                \<and> run (startListening s) s = s\<lparr>isListening := True\<rparr>)
    \<and> (isListening s \<or> recognition s = None
            \<longrightarrow> startListening s = [] \<and> run (startListening s) s = s)
    \<and> (recognition s \<noteq> None \<longrightarrow> \<not> isListening (run (stopListening s) s))
    \<and> (reachable c \<longrightarrow> \<not> isListening (run (stopListening (ui c)) (ui c)))
    \<and> (\<not> isListening s \<longrightarrow> stopListening s = [] \<and> run (stopListening s) s = s)
    \<and> (synthesis s \<noteq> None \<longrightarrow> \<not> isSpeaking (run (stopSpeaking s) s))
    \<and> (reachable c \<longrightarrow> \<not> isSpeaking (run (stopSpeaking (ui c)) (ui c)))
    \<and> (reachable c \<longrightarrow> \<not> isSpeaking (run (stopSpeaking (rendered c)) (ui c)))
    \<and> run (stopSpeaking (run (stopSpeaking s) s)) (run (stopSpeaking s) s)
        = run (stopSpeaking s) s"
proof -
  have r: "reachable c \<Longrightarrow>
      \<not> isListening (run (stopListening (ui c)) (ui c))
      \<and> \<not> isSpeaking (run (stopSpeaking (ui c)) (ui c))
      \<and> \<not> isSpeaking (run (stopSpeaking (rendered c)) (ui c))"
    using speech_inv_reachable [of c]
    by (auto simp: speech_inv_def stopListening_def stopSpeaking_def)
  have i: "run (stopSpeaking (run (stopSpeaking s) s)) (run (stopSpeaking s) s)
      = run (stopSpeaking s) s"
    by (simp add: stopSpeaking_def)
  from r i show ?thesis
    by (auto simp: startListening_def stopListening_def stopSpeaking_def)
qed

theorem voice_toggles_witness:
  "recognition (ui sample_idle) \<noteq> None \<and> \<not> isListening (ui sample_idle)
   \<and> run (startListening (ui sample_idle)) (ui sample_idle)
       = (ui sample_idle)\<lparr>isListening := True\<rparr>
   \<and> reachable sample_idle
   \<and> \<not> isSpeaking (run (stopSpeaking (ui sample_idle)) (ui sample_idle))
   \<and> \<not> isListening (run (stopListening (ui sample_idle)) (ui sample_idle))
   \<and> isListening sample_voice \<and> recognition sample_voice \<noteq> None
   \<and> startListening sample_voice = []
   \<and> \<not> isListening (run (stopListening sample_voice) sample_voice)
   \<and> isSpeaking sample_voice \<and> synthesis sample_voice \<noteq> None
   \<and> \<not> isSpeaking (run (stopSpeaking sample_voice) sample_voice)"
proof -
  have v: "isListening sample_voice" "recognition sample_voice \<noteq> None"
    "isSpeaking sample_voice" "synthesis sample_voice \<noteq> None"
    using sample_render_facts by (simp_all add: sample_voice_def sample_idle_sel)
  note a = voice_toggles_guarded [where s = "ui sample_idle" and c = sample_idle]
  note b = voice_toggles_guarded [where s = sample_voice and c = sample_idle]
  have w: "recognition (ui sample_idle) \<noteq> None" "\<not> isListening (ui sample_idle)"
    using sample_render_facts by (simp_all add: sample_idle_sel)
  from a w sample_idle_reachable
  have 1: "run (startListening (ui sample_idle)) (ui sample_idle)
             = (ui sample_idle)\<lparr>isListening := True\<rparr>
      \<and> \<not> isSpeaking (run (stopSpeaking (ui sample_idle)) (ui sample_idle))
      \<and> \<not> isListening (run (stopListening (ui sample_idle)) (ui sample_idle))"
    by blast
  from b v
  have 2: "startListening sample_voice = []
      \<and> \<not> isListening (run (stopListening sample_voice) sample_voice)
      \<and> \<not> isSpeaking (run (stopSpeaking sample_voice) sample_voice)"
    by blast
  from 1 2 v w sample_idle_reachable show ?thesis
    by blast
qed

section \<open>The component as a whole\<close>

text \<open>
  Claim C7. Only a call of \<open>sendMessage\<close> that posts to the chat endpoint sets
  \<open>isTyping\<close> to true: an event whose actions contain that update is one of the three
  that call \<open>sendMessage\<close> and its actions contain the POST, and a step that turns
  \<open>isTyping\<close> on puts exactly one chat request in flight. The continuation of a chat
  request, whatever its outcome, leaves \<open>isTyping\<close> false. In every reachable
  configuration \<open>isTyping\<close> holds only while a chat request is in flight, so it is
  false, in the newest state and in the rendered one, in every reachable quiescent
  configuration. The converse does not hold: two sends handled against one render put
  two requests in flight, and the first reply turns \<open>isTyping\<close> off.
\<close>

theorem typing_indicator_only_during_chat_request:
  fixes c c' d d' k :: "'v config"
  shows "(SetIsTyping True \<in> set (actions e c)
            \<longrightarrow> is_send e \<and> filter (is_post_to (js ''/chat'')) (actions e c) \<noteq> [])
    \<and> (step e c = Some c' \<and> \<not> isTyping (ui c) \<and> isTyping (ui c')
            \<longrightarrow> is_send e \<and> chat_pending c' = chat_pending c @ [rendered c])
    \<and> (step (ChatSettled i clk clk' out) d = Some d' \<longrightarrow> \<not> isTyping (ui d'))
    \<and> (reachable k \<longrightarrow> (isTyping (ui k) \<longrightarrow> chat_pending k \<noteq> [])
                         \<and> (quiescent k \<longrightarrow> \<not> isTyping (ui k) \<and> \<not> isTyping (rendered k)))"
proof -
  have a: "step (ChatSettled i clk clk' out) d = Some d' \<Longrightarrow> \<not> isTyping (ui d')"
    by (auto dest!: step_unfold simp: perform_sel settle_typing)
  have b: "reachable k \<Longrightarrow> isTyping (ui k) \<longrightarrow> chat_pending k \<noteq> []"
    using typing_inv_reachable [of k] by (simp add: typing_inv_def)
  from a b typing_rise [of e c c'] typing_set_true [of e c] show ?thesis
    by (auto simp: quiescent_def)
qed

theorem typing_indicator_witness:
  "reachable sample_idle \<and> quiescent sample_idle \<and> \<not> isTyping (ui sample_idle)
   \<and> SetIsTyping True \<in> set (actions (SendClick sample_clock) sample_idle)
   \<and> is_send (SendClick sample_clock :: nat event)
   \<and> step (SendClick sample_clock) sample_idle = Some sample_sent
   \<and> isTyping (ui sample_sent)
   \<and> chat_pending sample_sent = chat_pending sample_idle @ [rendered sample_idle]
   \<and> step (SendClick sample_clock) sample_sent = Some sample_sent_twice
   \<and> chat_pending sample_sent_twice = [sample_render, sample_render]
   \<and> step (ChatSettled 0 sample_clock sample_clock (ChatResolved (JStr (js ''ok'')) None))
        sample_sent_twice = Some sample_replied
   \<and> reachable sample_replied
   \<and> \<not> isTyping (ui sample_replied)
   \<and> chat_pending sample_replied = [sample_render]"
proof -
  have h: "SetIsTyping True \<in> set (actions (SendClick sample_clock) sample_idle)"
    by (simp add: sample_idle_sel sample_send)
  have n: "\<not> isTyping (ui sample_idle)"
    using sample_render_facts by (simp add: sample_idle_sel)
  note inst = typing_indicator_only_during_chat_request
    [where e = "SendClick sample_clock" and c = sample_idle and c' = sample_sent
       and i = 0 and clk = sample_clock and clk' = sample_clock
       and out = "ChatResolved (JStr (js ''ok'')) None"
       and d = sample_sent_twice and d' = sample_replied and k = sample_idle]
  from inst h have 1: "is_send (SendClick sample_clock :: nat event)"
    by blast
  from inst sample_steps(1) n sample_sent_sel(3)
  have 2: "chat_pending sample_sent = chat_pending sample_idle @ [rendered sample_idle]"
    by blast
  from inst sample_steps(3) have 3: "\<not> isTyping (ui sample_replied)"
    by blast
  from inst sample_idle_reachable sample_idle_quiescent
  have 4: "\<not> isTyping (ui sample_idle)"
    by blast
  from 1 2 3 4 h sample_idle_reachable sample_idle_quiescent sample_steps(1,2,3)
    sample_sent_sel(3) sample_sent_twice_sel(2) sample_reachable(3) sample_replied_sel(2)
  show ?thesis
    by simp
qed

text \<open>
  Claim C2, as stated, fails: the component calls three endpoints, not two. The effects
  of the first render GET \<^verbatim>\<open>/files\<close>, an upload POSTs to \<^verbatim>\<open>/upload\<close>, and a
  message POSTs to \<^verbatim>\<open>/chat\<close>.
\<close>

theorem two_endpoints_counterexample:
  "map endpoint (requests (mount None None JUndefined sample_clock :: nat action list)
      @ requests (handleFileUpload (Some [File (js ''notes.txt'')]) :: nat action list)
      @ requests (sendMessage sample_clock None typed_hi))
     = [Some (js ''/files''), Some (js ''/upload''), Some (js ''/chat'')]
   \<and> distinct [js ''/files'', js ''/upload'', js ''/chat'']"
  by (simp add: requests_def mount_def loadUploadedFiles_def handleFileUpload_def
        sendMessage_def Let_def message_of_def typed_hi_trim typed_hi_idle)
     (simp add: js_def)

text \<open>
  Claim C2, amended. The component's interaction with the backend consists of calls to
  exactly three endpoints, \<^verbatim>\<open>/chat\<close>, \<^verbatim>\<open>/upload\<close> and \<^verbatim>\<open>/files\<close>: every request
  in the log of a reachable configuration, and every request among the actions of any
  event, goes to one of the three (a POST to the first two, a GET of the third), and
  each of the three is called (by
  \<open>loadUploadedFiles\<close>, by \<open>handleFileUpload\<close> on a non-empty list, and by
  \<open>sendMessage\<close> when its guard passes).
\<close>

theorem three_endpoints_only:
  fixes c :: "'v config" and s :: "'v state"
  shows "(reachable c \<longrightarrow>
            (\<forall>a \<in> set (log c). is_http a \<longrightarrow>
               endpoint a \<in> {Some (js ''/chat''), Some (js ''/upload''), Some (js ''/files'')}))
    \<and> (\<forall>a \<in> set (actions e c). is_http a \<longrightarrow>
          endpoint a \<in> {Some (js ''/chat''), Some (js ''/upload''), Some (js ''/files'')})
    \<and> (reachable c \<longrightarrow>
          (\<forall>a \<in> set (log c). is_http a \<longrightarrow>
             is_get_of (js ''/files'') a \<or> is_post_to (js ''/chat'') a
             \<or> is_post_to (js ''/upload'') a))
    \<and> map endpoint (requests (loadUploadedFiles :: 'v action list)) = [Some (js ''/files'')]
    \<and> (fs \<noteq> [] \<longrightarrow>
          map endpoint (requests (handleFileUpload (Some fs) :: 'v action list))
            = [Some (js ''/upload'')])
    \<and> (sendMessage clk messageText s \<noteq> [] \<longrightarrow>
          map endpoint (requests (sendMessage clk messageText s)) = [Some (js ''/chat'')])
    \<and> distinct [js ''/chat'', js ''/upload'', js ''/files'']"
proof -
  have 1: "reachable c \<Longrightarrow> a \<in> set (log c) \<Longrightarrow> is_http a \<Longrightarrow>
      endpoint a \<in> {Some (js ''/chat''), Some (js ''/upload''), Some (js ''/files'')}" for a
    using log_allowed [of c] allowed_endpoint [of a] by (simp add: list_all_iff)
  have 2: "a \<in> set (actions e c) \<Longrightarrow> is_http a \<Longrightarrow>
      endpoint a \<in> {Some (js ''/chat''), Some (js ''/upload''), Some (js ''/files'')}" for a
    using actions_allowed [of e c] allowed_endpoint [of a] by (simp add: list_all_iff)
  have 7: "reachable c \<Longrightarrow> a \<in> set (log c) \<Longrightarrow> is_http a \<Longrightarrow>
      is_get_of (js ''/files'') a \<or> is_post_to (js ''/chat'') a
      \<or> is_post_to (js ''/upload'') a" for a
    using log_allowed [of c] allowed_method [of a] by (simp add: list_all_iff)
  have 3: "map endpoint (requests (loadUploadedFiles :: 'v action list)) = [Some (js ''/files'')]"
    by (simp add: requests_def loadUploadedFiles_def)
  have 4: "fs \<noteq> [] \<Longrightarrow>
      map endpoint (requests (handleFileUpload (Some fs) :: 'v action list))
        = [Some (js ''/upload'')]"
    by (simp add: requests_def handleFileUpload_def)
  have 5: "sendMessage clk messageText s \<noteq> [] \<Longrightarrow>
      map endpoint (requests (sendMessage clk messageText s)) = [Some (js ''/chat'')]"
    by (simp add: requests_def sendMessage_def Let_def split: if_splits)
  have 6: "distinct [js ''/chat'', js ''/upload'', js ''/files'']"
    by simp
  from 1 2 3 4 5 6 7 show ?thesis
    by blast
qed

theorem three_endpoints_witness:
  "reachable sample_idle
   \<and> HttpGet (js ''/files'') \<in> set (log sample_idle)
   \<and> endpoint (HttpGet (js ''/files'') :: nat action)
        \<in> {Some (js ''/chat''), Some (js ''/upload''), Some (js ''/files'')}
   \<and> sendMessage sample_clock None typed_hi \<noteq> []
   \<and> map endpoint (requests (sendMessage sample_clock None typed_hi)) = [Some (js ''/chat'')]
   \<and> map endpoint (requests (handleFileUpload (Some [File (js ''notes.txt'')]) :: nat action list))
        = [Some (js ''/upload'')]"
proof -
  have g: "HttpGet (js ''/files'') \<in> set (log sample_idle)"
    by (simp add: sample_idle_def mount_def loadUploadedFiles_def)
  have n: "sendMessage sample_clock None typed_hi \<noteq> []"
    using typed_hi_nonempty typed_hi_idle
    by (simp add: sendMessage_def Let_def message_of_def)
  note inst = three_endpoints_only
    [where c = sample_idle and e = DragOver and fs = "[File (js ''notes.txt'')]"
       and clk = sample_clock and messageText = None and s = typed_hi]
  from inst sample_idle_reachable g
  have 1: "endpoint (HttpGet (js ''/files'') :: nat action)
        \<in> {Some (js ''/chat''), Some (js ''/upload''), Some (js ''/files'')}"
    by simp
  from inst n have 2:
    "map endpoint (requests (sendMessage sample_clock None typed_hi)) = [Some (js ''/chat'')]"
    by blast
  from inst have 3:
    "map endpoint (requests (handleFileUpload (Some [File (js ''notes.txt'')]) :: nat action list))
        = [Some (js ''/upload'')]"
    by blast
  from 1 2 3 g n sample_idle_reachable show ?thesis
    by blast
qed


end
